theory Spec2Isabelle
  imports Main "HOL-Library.AList" "HOL-Library.Sublist"
begin

section \<open>Main process: JavaScript values and the object store\<close>

text \<open>
  The class \<open>DriveExport\<close> works on plain JavaScript data: primitives, and objects and
  arrays that are shared by reference and updated in place. A value is a primitive or a
  reference into the store; the store is a list of objects, a reference is an index into
  it, and allocation appends. An array carries its elements and, like every JavaScript
  object, named properties. Numbers are integers here; the code never computes with them.
\<close>

type_synonym addr = nat

datatype val = VUndefined | VNull | VBool bool | VNum int | VStr string | VRef addr

datatype obj = Obj "(string \<times> val) list" | Arr "val list" "(string \<times> val) list"

type_synonym store = "obj list"

text \<open>
  What a promise can be rejected with: \<open>new Error(msg)\<close> with a message built by the
  code, \<open>new Error(v)\<close> of a value read from a response, the engine's \<open>TypeError\<close> and
  \<open>ReferenceError\<close>, the \<open>SyntaxError\<close> of \<open>JSON.parse\<close>, and whatever an external
  collaborator rejected with. \<open>Unsettled\<close> stands for an exception thrown inside a response callback: the
  promise is then never settled and no \<open>catch\<close> sees it.
\<close>

datatype error =
    Error string
  | ErrorOf val
  | TypeError
  | ReferenceError
  | SyntaxError
  | Rejection val
  | Unsettled

fun truthy :: "val \<Rightarrow> bool" where
  "truthy VUndefined = False"
| "truthy VNull = False"
| "truthy (VBool b) = b"
| "truthy (VNum n) = (n \<noteq> 0)"
| "truthy (VStr s) = (s \<noteq> [])"
| "truthy (VRef a) = True"

fun is_string :: "val \<Rightarrow> bool" where
  "is_string (VStr s) = True"
| "is_string v = False"

fun nullish :: "val \<Rightarrow> bool" where
  "nullish VUndefined = True"
| "nullish VNull = True"
| "nullish v = False"

definition deref :: "store \<Rightarrow> addr \<Rightarrow> obj" where
  "deref h a = (if a < length h then h ! a else Obj [])"

definition lookup :: "(string \<times> val) list \<Rightarrow> string \<Rightarrow> val" where
  "lookup ps k = (case map_of ps k of None \<Rightarrow> VUndefined | Some v \<Rightarrow> v)"

text \<open>
  \<open>jsprop h v k\<close> is \<open>v.k\<close> for a value that is neither \<open>undefined\<close> nor \<open>null\<close>, for the
  property names the code reads (none of them is a method or an index). A string has a
  \<open>length\<close>, which the code only tests for being zero; numbers and booleans have no
  such property.
\<close>

fun jsprop :: "store \<Rightarrow> val \<Rightarrow> string \<Rightarrow> val" where
  "jsprop h (VRef a) k =
     (case deref h a of
        Obj ps \<Rightarrow> lookup ps k
      | Arr xs ps \<Rightarrow> if k = ''length'' then VNum (int (length xs)) else lookup ps k)"
| "jsprop h (VStr s) k = (if k = ''length'' then VNum (int (length s)) else VUndefined)"
| "jsprop h v k = VUndefined"

definition get_prop :: "store \<Rightarrow> val \<Rightarrow> string \<Rightarrow> error + val" where
  "get_prop h v k = (if nullish v then Inl TypeError else Inr (jsprop h v k))"

text \<open>
  \<open>v.k = x\<close>. The module is an ECMAScript module, hence strict: assigning a property of a
  primitive raises \<open>TypeError\<close>, as it does for \<open>undefined\<close> and \<open>null\<close>.
\<close>

fun set_prop :: "store \<Rightarrow> val \<Rightarrow> string \<Rightarrow> val \<Rightarrow> error + store" where
  "set_prop h (VRef a) k x =
     (case deref h a of
        Obj ps \<Rightarrow> Inr (h[a := Obj (AList.update k x ps)])
      | Arr xs ps \<Rightarrow> Inr (h[a := Arr xs (AList.update k x ps)]))"
| "set_prop h v k x = Inl TypeError"

text \<open>\<open>delete v.k\<close> for a value that is not \<open>undefined\<close> or \<open>null\<close>.\<close>

fun delete_prop :: "store \<Rightarrow> val \<Rightarrow> string \<Rightarrow> store" where
  "delete_prop h (VRef a) k =
     (case deref h a of
        Obj ps \<Rightarrow> h[a := Obj (AList.delete k ps)]
      | Arr xs ps \<Rightarrow> h[a := Arr xs (AList.delete k ps)])"
| "delete_prop h v k = h"

definition alloc :: "store \<Rightarrow> obj \<Rightarrow> store \<times> val" where
  "alloc h ob = (h @ [ob], VRef (length h))"

text \<open>
  Array methods. Only arrays have them: calling \<open>forEach\<close>, \<open>map\<close>, \<open>shift\<close> or \<open>push\<close>
  on anything else raises \<open>TypeError\<close>.
\<close>

fun array_items :: "store \<Rightarrow> val \<Rightarrow> error + val list" where
  "array_items h (VRef a) =
     (case deref h a of Arr xs ps \<Rightarrow> Inr xs | Obj ps \<Rightarrow> Inl TypeError)"
| "array_items h v = Inl TypeError"

fun array_shift :: "store \<Rightarrow> val \<Rightarrow> error + val \<times> store" where
  "array_shift h (VRef a) =
     (case deref h a of
        Arr xs ps \<Rightarrow>
          (case xs of
             [] \<Rightarrow> Inr (VUndefined, h)
           | x # rest \<Rightarrow> Inr (x, h[a := Arr rest ps]))
      | Obj ps \<Rightarrow> Inl TypeError)"
| "array_shift h v = Inl TypeError"

fun array_push :: "store \<Rightarrow> val \<Rightarrow> val \<Rightarrow> error + store" where
  "array_push h (VRef a) x =
     (case deref h a of
        Arr xs ps \<Rightarrow> Inr (h[a := Arr (xs @ [x]) ps])
      | Obj ps \<Rightarrow> Inl TypeError)"
| "array_push h v x = Inl TypeError"

subsection \<open>JSON text\<close>

text \<open>
  \<open>JSON.parse\<close> is the engine's; its result is a tree, which \<open>alloc_json\<close> builds in the
  store (children first), every object and array at a fresh address.
\<close>

datatype json =
    JNull | JBool bool | JNum int | JStr string
  | JArr "json list" | JObj "(string \<times> json) list"

fun alloc_json :: "store \<Rightarrow> json \<Rightarrow> store \<times> val"
  and alloc_jsons :: "store \<Rightarrow> json list \<Rightarrow> store \<times> val list"
  and alloc_members :: "store \<Rightarrow> (string \<times> json) list \<Rightarrow> store \<times> (string \<times> val) list"
where
  "alloc_json h JNull = (h, VNull)"
| "alloc_json h (JBool b) = (h, VBool b)"
| "alloc_json h (JNum n) = (h, VNum n)"
| "alloc_json h (JStr s) = (h, VStr s)"
| "alloc_json h (JArr js) = (case alloc_jsons h js of (h1, vs) \<Rightarrow> alloc h1 (Arr vs []))"
| "alloc_json h (JObj ms) = (case alloc_members h ms of (h1, ps) \<Rightarrow> alloc h1 (Obj ps))"
| "alloc_jsons h [] = (h, [])"
| "alloc_jsons h (j # js) =
     (case alloc_json h j of (h1, v) \<Rightarrow>
        case alloc_jsons h1 js of (h2, vs) \<Rightarrow> (h2, v # vs))"
| "alloc_members h [] = (h, [])"
| "alloc_members h (m # ms) =
     (case alloc_json h (snd m) of (h1, v) \<Rightarrow>
        case alloc_members h1 ms of (h2, ps) \<Rightarrow> (h2, (fst m, v) # ps))"

text \<open>
  \<open>JSON.stringify\<close>: decimal numbers, quoted strings with the JSON escapes, arrays and
  objects member by member. \<open>undefined\<close> has no JSON text: at the top the result is
  \<open>undefined\<close>, in an array it is written \<open>null\<close>, in an object the member is left out.
  A structure that contains itself raises \<open>TypeError\<close>; \<open>path\<close> holds the addresses of
  the objects being written.
\<close>

fun show_nat :: "nat \<Rightarrow> string" where
  "show_nat n =
     (if n < 10 then [''0123456789'' ! n]
      else show_nat (n div 10) @ [''0123456789'' ! (n mod 10)])"

definition show_int :: "int \<Rightarrow> string" where
  "show_int i = (if i < 0 then CHR ''-'' # show_nat (nat (- i)) else show_nat (nat i))"

definition escape_char :: "char \<Rightarrow> string" where
  "escape_char c =
     (if c = CHR 0x22 then [CHR 0x5C, CHR 0x22]
      else if c = CHR 0x5C then [CHR 0x5C, CHR 0x5C]
      else if c = CHR 0x08 then [CHR 0x5C, CHR ''b'']
      else if c = CHR 0x09 then [CHR 0x5C, CHR ''t'']
      else if c = CHR 0x0A then [CHR 0x5C, CHR ''n'']
      else if c = CHR 0x0C then [CHR 0x5C, CHR ''f'']
      else if c = CHR 0x0D then [CHR 0x5C, CHR ''r'']
      else if (of_char c :: nat) < 32
        then [CHR 0x5C, CHR ''u'', CHR ''0'', CHR ''0'',
              ''0123456789abcdef'' ! (of_char c div 16),
              ''0123456789abcdef'' ! (of_char c mod 16)]
      else [c])"

definition quote :: "string \<Rightarrow> string" where
  "quote s = CHR 0x22 # concat (map escape_char s) @ [CHR 0x22]"

fun join :: "string list \<Rightarrow> string" where
  "join [] = []"
| "join [s] = s"
| "join (s # t # ss) = s @ CHR '','' # join (t # ss)"

fun first_error :: "(error + 'a) list \<Rightarrow> error option" where
  "first_error [] = None"
| "first_error (Inl e # rs) = Some e"
| "first_error (Inr x # rs) = first_error rs"

fun element_text :: "error + string option \<Rightarrow> string" where
  "element_text (Inr (Some s)) = s"
| "element_text r = ''null''"

fun member_text :: "string \<Rightarrow> error + string option \<Rightarrow> string list" where
  "member_text k (Inr (Some s)) = [quote k @ CHR '':'' # s]"
| "member_text k r = []"

function stringify :: "store \<Rightarrow> addr list \<Rightarrow> val \<Rightarrow> error + string option" where
  "stringify h path VUndefined = Inr None"
| "stringify h path VNull = Inr (Some ''null'')"
| "stringify h path (VBool b) = Inr (Some (if b then ''true'' else ''false''))"
| "stringify h path (VNum n) = Inr (Some (show_int n))"
| "stringify h path (VStr s) = Inr (Some (quote s))"
| "stringify h path (VRef a) =
     (if a \<in> set path then Inl TypeError
      else case deref h a of
        Arr xs ps \<Rightarrow>
          (let rs = map (stringify h (a # path)) xs
           in case first_error rs of
                Some e \<Rightarrow> Inl e
              | None \<Rightarrow> Inr (Some (CHR ''['' # join (map element_text rs) @ '']'')))
      | Obj ps \<Rightarrow>
          (let rs = map (\<lambda>m. stringify h (a # path) (snd m)) ps
           in case first_error rs of
                Some e \<Rightarrow> Inl e
              | None \<Rightarrow>
                  Inr (Some (CHR ''{'' # join (concat (map2 member_text (map fst ps) rs)) @ ''}''))))"
  by pat_completeness auto
termination
proof (relation "measure (\<lambda>(h, path, v). card ({..<length h} - set path))")
  show "wf (measure (\<lambda>(h, path, v). card ({..<length h} - set path)))"
    by simp
next
  fix h :: store and path :: "addr list" and a :: addr and xs ps x
  assume fresh: "a \<notin> set path" and arr: "deref h a = Arr xs ps" and mem: "x \<in> set xs"
  have "a < length h"
    using arr by (cases "a < length h") (simp_all add: deref_def)
  then have "a \<in> {..<length h} - set path"
    using fresh by simp
  then have "card (({..<length h} - set path) - {a}) < card ({..<length h} - set path)"
    by (intro card_Diff1_less) simp_all
  moreover have "{..<length h} - set (a # path) = ({..<length h} - set path) - {a}"
    by auto
  ultimately have "card ({..<length h} - set (a # path)) < card ({..<length h} - set path)"
    by simp
  then show "((h, a # path, x), (h, path, VRef a))
      \<in> measure (\<lambda>(h, path, v). card ({..<length h} - set path))"
    by simp
next
  fix h :: store and path :: "addr list" and a :: addr and ps :: "(string \<times> val) list" and m
  assume fresh: "a \<notin> set path" and ob: "deref h a = Obj ps" and mem: "m \<in> set ps"
  have "a < length h"
    using ob mem by (cases "a < length h") (auto simp add: deref_def)
  then have "a \<in> {..<length h} - set path"
    using fresh by simp
  then have "card (({..<length h} - set path) - {a}) < card ({..<length h} - set path)"
    by (intro card_Diff1_less) simp_all
  moreover have "{..<length h} - set (a # path) = ({..<length h} - set path) - {a}"
    by auto
  ultimately have "card ({..<length h} - set (a # path)) < card ({..<length h} - set path)"
    by simp
  then show "((h, a # path, snd m), (h, path, VRef a))
      \<in> measure (\<lambda>(h, path, v). card ({..<length h} - set path))"
    by simp
qed

definition JSON_stringify :: "store \<Rightarrow> val \<Rightarrow> error + val" where
  "JSON_stringify h v =
     (case stringify h [] v of
        Inl e \<Rightarrow> Inl e
      | Inr None \<Rightarrow> Inr VUndefined
      | Inr (Some s) \<Rightarrow> Inr (VStr s))"

section \<open>Renderer side: the table of pending operations (class ArcElectronDrive)\<close>

text \<open>
  The renderer keeps \<open>this._promises\<close>, a plain object made by \<open>{}\<close> whose own properties
  are the registered ids, each holding the pair of callbacks of the promise handed to the
  caller, and \<open>this._index\<close>, the last id used. The ids the renderer issues are the numbers
  produced by \<open>++this._index\<close>; the id of a notification is whatever arrives on the channel,
  a number or a string. An id is used as a property key: the key of a number is its
  decimal text, the key of a string is the string itself. A callback is a value of an
  arbitrary type \<open>'f\<close>; calling one is recorded, in order, in \<open>calls\<close> together with its
  argument, and \<open>sent\<close> records the messages given to \<open>ipc.send\<close>.
\<close>

datatype ident = IdNum nat | IdStr string

fun key_of :: "ident \<Rightarrow> string" where
  "key_of (IdNum n) = show_nat n"
| "key_of (IdStr k) = k"

record 'f pending =
  resolve :: 'f
  reject :: 'f

record ('f, 'v) renderer =
  promises :: "string \<rightharpoonup> 'f pending"
  index :: nat
  calls :: "('f \<times> 'v) list"
  sent :: "(string \<times> nat \<times> 'v) list"

text \<open>
  Reading \<open>this._promises[id]\<close> finds an own property first and otherwise what a plain
  object inherits from \<open>Object.prototype\<close>: the functions and the accessor \<open>__proto__\<close>
  named below. Each of these is truthy and has neither a \<open>resolve\<close> nor a \<open>reject\<close> method.
\<close>

definition object_prototype :: "string list" where
  "object_prototype =
     [''constructor'', ''__proto__'', ''hasOwnProperty'', ''isPrototypeOf'',
      ''propertyIsEnumerable'', ''toLocaleString'', ''toString'', ''valueOf'',
      ''__defineGetter__'', ''__defineSetter__'', ''__lookupGetter__'', ''__lookupSetter__'']"

datatype 'f slot = Missing | Own "'f pending" | Inherited

definition lookup_promise :: "(string \<rightharpoonup> 'f pending) \<Rightarrow> string \<Rightarrow> 'f slot" where
  "lookup_promise ps k =
     (case ps k of
        Some p \<Rightarrow> Own p
      | None \<Rightarrow> if k \<in> set object_prototype then Inherited else Missing)"

text \<open>The state after the constructor.\<close>

definition new_renderer :: "('f, 'v) renderer" where
  "new_renderer = \<lparr>promises = Map.empty, index = 0, calls = [], sent = []\<rparr>"

definition addPromise ::
  "('f, 'v) renderer \<Rightarrow> nat \<Rightarrow> 'f \<Rightarrow> 'f \<Rightarrow> ('f, 'v) renderer" where
  "addPromise d i res rej =
     d\<lparr>promises := (promises d)(show_nat i \<mapsto> \<lparr>resolve = res, reject = rej\<rparr>)\<rparr>"

text \<open>
  \<open>_listAppFoldersHandler\<close> of the renderer: take the next id, send the request, register
  the callbacks of the new promise under that id.
\<close>

definition dispatchListAppFolders ::
  "('f, 'v) renderer \<Rightarrow> 'v \<Rightarrow> 'f \<Rightarrow> 'f \<Rightarrow> nat \<times> ('f, 'v) renderer" where
  "dispatchListAppFolders d payload res rej =
     (let i = index d + 1;
          d1 = d\<lparr>index := i, sent := sent d @ [(''google-drive-list-app-folders'', i, payload)]\<rparr>
      in (i, addPromise d1 i res rej))"

text \<open>
  \<open>_mainResultHandler(e, id, result)\<close> and \<open>_mainErrorHandler(e, id, cause)\<close>: return when
  the value read under the id is falsy; otherwise \<open>delete\<close> the property, which removes an
  own property and does nothing to an inherited one, and call the \<open>resolve\<close> (the
  \<open>reject\<close>) property of the value read. For an inherited value that property is
  \<open>undefined\<close> and the call raises \<open>TypeError\<close>.
\<close>

definition mainResultHandler ::
  "('f, 'v) renderer \<Rightarrow> ident \<Rightarrow> 'v \<Rightarrow> error + ('f, 'v) renderer" where
  "mainResultHandler d i result =
     (case lookup_promise (promises d) (key_of i) of
        Missing \<Rightarrow> Inr d
      | Inherited \<Rightarrow> Inl TypeError
      | Own promise \<Rightarrow>
          Inr (d\<lparr>promises := (promises d)(key_of i := None),
                 calls := calls d @ [(resolve promise, result)]\<rparr>))"

definition mainErrorHandler ::
  "('f, 'v) renderer \<Rightarrow> ident \<Rightarrow> 'v \<Rightarrow> error + ('f, 'v) renderer" where
  "mainErrorHandler d i cause =
     (case lookup_promise (promises d) (key_of i) of
        Missing \<Rightarrow> Inr d
      | Inherited \<Rightarrow> Inl TypeError
      | Own promise \<Rightarrow>
          Inr (d\<lparr>promises := (promises d)(key_of i := None),
                 calls := calls d @ [(reject promise, cause)]\<rparr>))"
section \<open>Main process: the class DriveExport\<close>

subsection \<open>The collaborators: HTTP transport, Authorizer, IPC\<close>

text \<open>
  A request as given to \<open>net.request\<close>: \<open>req_bearer\<close> is the token \<open>t\<close> of the header
  \<open>authorization: 'Bearer ' + t\<close>, \<open>req_headers\<close> the other headers set, \<open>req_body\<close> what
  \<open>request.write\<close> was given (\<open>None\<close> when the request is ended without writing). Of a
  response the code reads the status code, the \<open>location\<close> header (a string, or an array
  of strings) and the chunks of the body.
\<close>

record request =
  req_method :: string
  req_url :: val
  req_bearer :: val
  req_headers :: "(string \<times> val) list"
  req_body :: "val option"

datatype header = HAbsent | HSingle string | HMany "string list"

record response =
  statusCode :: int
  location :: header
  chunks :: "string list"

datatype http_outcome = NetError val | Response response

text \<open>
  Everything the instance does to the outside is recorded in order: calls of the
  Authorizer, HTTP requests, and the messages \<open>google-drive-operation-result\<close> and
  \<open>google-drive-operation-error\<close> sent to the renderer with the request id.
\<close>

datatype event =
    LaunchWebAuthFlow val
  | GetAuthToken val
  | Http request
  | SendResult val val
  | SendError val error

text \<open>
  The collaborators are parameters. Each sees the events so far, so a server or an
  Authorizer may answer differently from one call to the next. The Authorizer rejects,
  or resolves with nothing (\<open>None\<close>, the value \<open>undefined\<close>) or with a fresh token-info
  object. \<open>JSON_parse\<close> is \<open>None\<close> where \<open>JSON.parse\<close> raises \<open>SyntaxError\<close>.
\<close>

record env =
  launchWebAuthFlow :: "event list \<Rightarrow> store \<Rightarrow> val \<Rightarrow> error + json option"
  getAuthToken :: "event list \<Rightarrow> val \<Rightarrow> error + json option"
  net_request :: "event list \<Rightarrow> request \<Rightarrow> http_outcome"
  JSON_parse :: "string \<Rightarrow> json option"

text \<open>
  The mutable state: the store, \<open>this.cachedFolders\<close>, and the events so far. The three
  defaults of an instance are set by the constructor and never assigned again.
\<close>

record state =
  heap :: store
  cachedFolders :: val
  trace :: "event list"

record inst =
  mime :: val
  fileDescription :: val
  fileType :: val

definition emit :: "state \<Rightarrow> event \<Rightarrow> state" where
  "emit s ev = s\<lparr>trace := trace s @ [ev]\<rparr>"

definition or_else :: "val \<Rightarrow> val \<Rightarrow> val" where
  "or_else a b = (if truthy a then a else b)"

subsection \<open>Construction and the request-construction helpers\<close>

definition arcDefaults :: obj where
  "arcDefaults = Obj
     [(''mime'', VStr ''application/restclient+data''),
      (''fileDescription'', VStr ''Advanced REST client data export file.''),
      (''fileType'', VStr ''application/json'')]"

text \<open>
  The constructor replaces a missing \<open>opts\<close> by \<open>{}\<close> and then reads \<open>opts.opts\<close>,
  \<open>opts.fileDescription\<close> and \<open>opts.fileType\<close>.
\<close>

definition constructor :: "store \<Rightarrow> val \<Rightarrow> inst" where
  "constructor h opts =
     (let rd = (\<lambda>k. if truthy opts then jsprop h opts k else VUndefined)
      in \<lparr>mime = rd ''opts'',
          fileDescription = rd ''fileDescription'',
          fileType = rd ''fileType''\<rparr>)"

text \<open>\<open>_createMedia(config)\<close>; the media object is allocated in the store.\<close>

definition priv_createMedia :: "inst \<Rightarrow> store \<Rightarrow> val \<Rightarrow> error + store \<times> val" where
  "priv_createMedia i h config =
     (if nullish config then Inl TypeError
      else
        let body0 = jsprop h config ''body'';
            type0 = jsprop h config ''type''
        in case (if \<not> is_string body0 then JSON_stringify h body0 else Inr body0) of
             Inl e \<Rightarrow> Inl e
           | Inr body1 \<Rightarrow>
               Inr (alloc h (Obj [(''mimeType'', or_else type0 (fileType i)),
                                  (''body'', body1)])))"

text \<open>\<open>_createResource(config)\<close>: the result is \<open>config.meta\<close> itself when it is set.\<close>

definition priv_createResource :: "inst \<Rightarrow> store \<Rightarrow> val \<Rightarrow> error + store \<times> val" where
  "priv_createResource i h config =
     (if nullish config then Inl TypeError
      else
        let meta0 = jsprop h config ''meta'';
            type0 = jsprop h config ''type'';
            (h1, meta) = (if \<not> truthy meta0 then alloc h (Obj []) else (h, meta0))
        in case (if \<not> truthy (jsprop h1 meta ''description'') \<and> truthy (fileDescription i)
                 then set_prop h1 meta ''description'' (fileDescription i)
                 else Inr h1) of
             Inl e \<Rightarrow> Inl e
           | Inr h2 \<Rightarrow>
               (case (if \<not> truthy (jsprop h2 meta ''mimeType'')
                      then set_prop h2 meta ''mimeType'' (or_else type0 (fileType i))
                      else Inr h2) of
                  Inl e \<Rightarrow> Inl e
                | Inr h3 \<Rightarrow> Inr (h3, meta)))"

subsection \<open>Authorization\<close>

definition settle_auth :: "state \<Rightarrow> error + json option \<Rightarrow> (error + val) \<times> state" where
  "settle_auth s r =
     (case r of
        Inl e \<Rightarrow> (Inl e, s)
      | Inr None \<Rightarrow> (Inr VUndefined, s)
      | Inr (Some j) \<Rightarrow> (case alloc_json (heap s) j of (h1, v) \<Rightarrow> (Inr v, s\<lparr>heap := h1\<rparr>)))"

text \<open>
  \<open>auth(auth)\<close>: an argument with an \<open>accessToken\<close> is the token info itself; an argument
  without one goes to \<open>launchWebAuthFlow\<close>; with no argument the call is
  \<open>getAuthToken({interactive: true})\<close>.
\<close>

definition auth :: "env \<Rightarrow> state \<Rightarrow> val \<Rightarrow> (error + val) \<times> state" where
  "auth E s a =
     (if truthy a then
        (if truthy (jsprop (heap s) a ''accessToken'') then (Inr a, s)
         else settle_auth (emit s (LaunchWebAuthFlow a))
                (launchWebAuthFlow E (trace s) (heap s) a))
      else settle_auth (emit s (GetAuthToken (VBool True)))
             (getAuthToken E (trace s) (VBool True)))"

subsection \<open>The resumable upload\<close>

text \<open>
  The response callback of \<open>_initializeSession\<close>: what the promise is settled with once
  the response has arrived (and, for a status of 400 or more, its body has ended).
\<close>

definition initializeSession_response :: "response \<Rightarrow> error + val" where
  "initializeSession_response r =
     (if statusCode r \<ge> 400
      then Inl (Error (''Could not initialize Drive upload session. Reason: '' @ concat (chunks r)))
      else case location r of
             HMany [] \<Rightarrow> Inr VUndefined
           | HMany (x # xs) \<Rightarrow> Inr (VStr x)
           | HSingle x \<Rightarrow>
               if x \<noteq> [] then Inr (VStr x)
               else Inl (Error ''Could not initialize Drive upload session.'')
           | HAbsent \<Rightarrow> Inl (Error ''Could not initialize Drive upload session.''))"

text \<open>\<open>_initializeSession(token, meta, fileId)\<close>; \<open>fileId\<close> is a string or missing.\<close>

definition priv_initializeSession ::
  "env \<Rightarrow> state \<Rightarrow> val \<Rightarrow> val \<Rightarrow> string option \<Rightarrow> (error + val) \<times> state" where
  "priv_initializeSession E s token meta fileId =
     (let (url, method) =
            (case fileId of
               Some f \<Rightarrow>
                 if f \<noteq> []
                 then (''https://www.googleapis.com/upload/drive/v3/files'' @ ''/'' @ f
                         @ ''?uploadType=resumable'', ''PATCH'')
                 else (''https://www.googleapis.com/upload/drive/v3/files''
                         @ ''?uploadType=resumable'', ''POST'')
             | None \<Rightarrow>
                 (''https://www.googleapis.com/upload/drive/v3/files''
                    @ ''?uploadType=resumable'', ''POST''))
      in case (if truthy meta then JSON_stringify (heap s) meta else Inr VUndefined) of
           Inl e \<Rightarrow> (Inl e, s)
         | Inr body1 \<Rightarrow>
             let rq = \<lparr>req_method = method, req_url = VStr url, req_bearer = token,
                       req_headers = [(''Content-Type'', VStr ''application/json; charset=UTF-8'')],
                       req_body = Some body1\<rparr>
             in case net_request E (trace s) rq of
                  NetError e \<Rightarrow> (Inl (Rejection e), emit s (Http rq))
                | Response r \<Rightarrow> (initializeSession_response r, emit s (Http rq)))"

definition parse_body :: "env \<Rightarrow> state \<Rightarrow> response \<Rightarrow> (error + val) \<times> state" where
  "parse_body E s r =
     (case JSON_parse E (concat (chunks r)) of
        None \<Rightarrow> (Inl SyntaxError, s)
      | Some j \<Rightarrow> (case alloc_json (heap s) j of (h1, v) \<Rightarrow> (Inr v, s\<lparr>heap := h1\<rparr>)))"

text \<open>\<open>_upload(token, url, body, mimeType)\<close>\<close>

definition priv_upload ::
  "env \<Rightarrow> state \<Rightarrow> val \<Rightarrow> val \<Rightarrow> val \<Rightarrow> val \<Rightarrow> (error + val) \<times> state" where
  "priv_upload E s token url body1 mimeType =
     (let rq = \<lparr>req_method = ''PUT'', req_url = url, req_bearer = token,
                req_headers = [(''content-type'', mimeType)],
                req_body = Some body1\<rparr>
      in case net_request E (trace s) rq of
           NetError e \<Rightarrow> (Inl (Rejection e), emit s (Http rq))
         | Response r \<Rightarrow> parse_body E (emit s (Http rq)) r)"

subsection \<open>Folders\<close>

text \<open>
  The end of a folder-creation or folder-listing response: the parsed body is tested
  with \<open>body.error\<close> inside the callback, outside any \<open>try\<close>.
\<close>

definition checked_body :: "env \<Rightarrow> state \<Rightarrow> response \<Rightarrow> (error + val) \<times> state" where
  "checked_body E s r =
     (case parse_body E s r of
        (Inl e, s1) \<Rightarrow> (Inl e, s1)
      | (Inr v, s1) \<Rightarrow>
          if nullish v then (Inl Unsettled, s1)
          else if truthy (jsprop (heap s1) v ''error'')
            then (Inl (ErrorOf (jsprop (heap s1) v ''message'')), s1)
          else (Inr v, s1))"

text \<open>\<open>_createFolder(name, token)\<close>\<close>

definition priv_createFolder :: "env \<Rightarrow> state \<Rightarrow> val \<Rightarrow> val \<Rightarrow> (error + val) \<times> state" where
  "priv_createFolder E s name token =
     (case alloc (heap s) (Obj [(''name'', name),
                                (''mimeType'', VStr ''application/vnd.google-apps.folder'')]) of
        (h1, tmp) \<Rightarrow>
          (case JSON_stringify h1 tmp of
             Inl e \<Rightarrow> (Inl e, s\<lparr>heap := h1\<rparr>)
           | Inr body1 \<Rightarrow>
               let rq = \<lparr>req_method = ''POST'',
                         req_url = VStr ''https://content.googleapis.com/drive/v3/files?alt=json'',
                         req_bearer = token,
                         req_headers = [(''content-type'', VStr ''application/json'')],
                         req_body = Some body1\<rparr>;
                   s1 = emit (s\<lparr>heap := h1\<rparr>) (Http rq)
               in case net_request E (trace s) rq of
                    NetError e \<Rightarrow> (Inl (Rejection e), s1)
                  | Response r \<Rightarrow>
                      (case checked_body E s1 r of
                         (Inl e, s2) \<Rightarrow> (Inl e, s2)
                       | (Inr v, s2) \<Rightarrow> (Inr (jsprop (heap s2) v ''id''), s2))))"

text \<open>\<open>createFolder(name, auth)\<close>\<close>

definition createFolder :: "env \<Rightarrow> state \<Rightarrow> val \<Rightarrow> val \<Rightarrow> (error + val) \<times> state" where
  "createFolder E s name a =
     (case auth E s a of
        (Inl e, s1) \<Rightarrow> (Inl e, s1)
      | (Inr info, s1) \<Rightarrow>
          (case get_prop (heap s1) info ''accessToken'' of
             Inl e \<Rightarrow> (Inl e, s1)
           | Inr token \<Rightarrow> priv_createFolder E s1 name token))"

text \<open>
  \<open>toLowerCase\<close>, on the letters A to Z. The only use is the comparison with
  \<open>'my drive'\<close>, and no other character is mapped to one of its letters.
\<close>

definition lower_char :: "char \<Rightarrow> char" where
  "lower_char c =
     (case map_of (zip ''ABCDEFGHIJKLMNOPQRSTUVWXYZ'' ''abcdefghijklmnopqrstuvwxyz'') c of
        Some l \<Rightarrow> l
      | None \<Rightarrow> c)"

definition toLowerCase :: "string \<Rightarrow> string" where
  "toLowerCase s = map lower_char s"

text \<open>
  \<open>_normalizeParents(parents)\<close>: the callback of \<open>forEach\<close>, item by item, appending to
  the array \<open>r\<close> created by the function. Reading \<open>item.name\<close> of \<open>null\<close> or \<open>undefined\<close>
  raises \<open>TypeError\<close>.
\<close>

fun normalize_items :: "store \<Rightarrow> val \<Rightarrow> val list \<Rightarrow> error + store" where
  "normalize_items h r [] = Inr h"
| "normalize_items h r (VStr s # items) =
     (case alloc h (Obj (if toLowerCase s = ''my drive''
                         then [(''id'', VStr ''root'')]
                         else [(''name'', VStr s)])) of
        (h1, ob) \<Rightarrow>
          (case array_push h1 r ob of
             Inl e \<Rightarrow> Inl e
           | Inr h2 \<Rightarrow> normalize_items h2 r items))"
| "normalize_items h r (item # items) =
     (if nullish item then Inl TypeError
      else if \<not> truthy (jsprop h item ''name'') \<and> \<not> truthy (jsprop h item ''id'')
        then normalize_items h r items
      else case array_push h r item of
             Inl e \<Rightarrow> Inl e
           | Inr h1 \<Rightarrow> normalize_items h1 r items)"

definition priv_normalizeParents :: "store \<Rightarrow> val \<Rightarrow> error + store \<times> val" where
  "priv_normalizeParents h parents =
     (case alloc h (Arr [] []) of
        (h1, r) \<Rightarrow>
          (case array_items h1 parents of
             Inl e \<Rightarrow> Inl e
           | Inr items \<Rightarrow>
               (case normalize_items h1 r items of
                  Inl e \<Rightarrow> Inl e
                | Inr h2 \<Rightarrow> Inr (h2, r))))"

text \<open>
  \<open>this.cachedFolders.push(parent)\<close>, after \<open>this.cachedFolders\<close> has been set to a new
  array when it was not set.
\<close>

definition cache_push :: "state \<Rightarrow> val \<Rightarrow> (error + unit) \<times> state" where
  "cache_push s parent =
     (let s1 = (if \<not> truthy (cachedFolders s)
                then (case alloc (heap s) (Arr [] []) of
                        (h1, c) \<Rightarrow> s\<lparr>heap := h1, cachedFolders := c\<rparr>)
                else s)
      in case array_push (heap s1) (cachedFolders s1) parent of
           Inl e \<Rightarrow> (Inl e, s1)
         | Inr h2 \<Rightarrow> (Inr (), s1\<lparr>heap := h2\<rparr>))"

text \<open>
  One round of \<open>_createParents\<close> after \<open>parents.shift()\<close> returned a parent without an
  id: create the folder, store the id in the parent, append the parent to the result
  and to the cache.
\<close>

definition create_parent :: "env \<Rightarrow> state \<Rightarrow> val \<Rightarrow> val \<Rightarrow> val \<Rightarrow> (error + unit) \<times> state" where
  "create_parent E s parent a result =
     (case createFolder E s (jsprop (heap s) parent ''name'') a of
        (Inl e, s1) \<Rightarrow> (Inl e, s1)
      | (Inr fid, s1) \<Rightarrow>
          (case set_prop (heap s1) parent ''id'' fid of
             Inl e \<Rightarrow> (Inl e, s1)
           | Inr h2 \<Rightarrow>
               (case array_push h2 result parent of
                  Inl e \<Rightarrow> (Inl e, s1\<lparr>heap := h2\<rparr>)
                | Inr h3 \<Rightarrow> cache_push (s1\<lparr>heap := h3\<rparr>) parent)))"

text \<open>
  \<open>_createParents(parents, auth, result)\<close> drains \<open>parents\<close> with \<open>shift\<close> and calls
  itself. When \<open>parents\<close> is the cache array itself and the server returns no id, the
  source never returns; the result is then \<open>None\<close>.
\<close>

partial_function (option) priv_createParents ::
  "env \<Rightarrow> state \<Rightarrow> val \<Rightarrow> val \<Rightarrow> val \<Rightarrow> ((error + val) \<times> state) option" where
  "priv_createParents E s parents a result =
     (case array_shift (heap s) parents of
        Inl e \<Rightarrow> Some (Inl e, s)
      | Inr (parent, h1) \<Rightarrow>
          if \<not> truthy parent then Some (Inr result, s\<lparr>heap := h1\<rparr>)
          else if truthy (jsprop h1 parent ''id'') then
            (case array_push h1 result parent of
               Inl e \<Rightarrow> Some (Inl e, s\<lparr>heap := h1\<rparr>)
             | Inr h2 \<Rightarrow> priv_createParents E (s\<lparr>heap := h2\<rparr>) parents a result)
          else
            (case create_parent E (s\<lparr>heap := h1\<rparr>) parent a result of
               (Inl e, s1) \<Rightarrow> Some (Inl e, s1)
             | (Inr u, s1) \<Rightarrow> priv_createParents E s1 parents a result))"

declare priv_createParents.simps [code]

text \<open>\<open>createParents(parents, auth)\<close>\<close>

definition createParents ::
  "env \<Rightarrow> state \<Rightarrow> val \<Rightarrow> val \<Rightarrow> ((error + val) \<times> state) option" where
  "createParents E s parents a =
     (if \<not> truthy parents \<or> \<not> truthy (jsprop (heap s) parents ''length'')
      then Some (Inl (Error ''The parents argument not set.''), s)
      else case priv_normalizeParents (heap s) parents of
             Inl e \<Rightarrow> Some (Inl e, s)
           | Inr (h1, normal) \<Rightarrow>
               if \<not> truthy (jsprop h1 normal ''length'')
               then (case alloc h1 (Arr [] []) of (h2, fresh) \<Rightarrow> Some (Inr fresh, s\<lparr>heap := h2\<rparr>))
               else
                 (case auth E (s\<lparr>heap := h1\<rparr>) a of
                    (Inl e, s1) \<Rightarrow> Some (Inl e, s1)
                  | (Inr info, s1) \<Rightarrow>
                      (case alloc (heap s1) (Arr [] []) of
                         (h2, result) \<Rightarrow>
                           priv_createParents E (s1\<lparr>heap := h2\<rparr>) normal info result)))"

subsection \<open>Creating and updating a file\<close>

text \<open>The first statement of \<open>create\<close> and of \<open>update\<close>: the default of \<open>resource.mimeType\<close>.\<close>

definition default_mimeType :: "inst \<Rightarrow> store \<Rightarrow> val \<Rightarrow> error + store" where
  "default_mimeType i h resource =
     (if nullish resource then Inl TypeError
      else if \<not> truthy (jsprop h resource ''mimeType'') \<and> truthy (mime i)
        then set_prop h resource ''mimeType'' (mime i)
      else Inr h)"

text \<open>\<open>createdParents.map((item) => item.id)\<close>\<close>

fun item_ids :: "store \<Rightarrow> val list \<Rightarrow> error + val list" where
  "item_ids h [] = Inr []"
| "item_ids h (item # items) =
     (case get_prop h item ''id'' of
        Inl e \<Rightarrow> Inl e
      | Inr x \<Rightarrow> (case item_ids h items of Inl e \<Rightarrow> Inl e | Inr xs \<Rightarrow> Inr (x # xs)))"

text \<open>
  The block of \<open>create\<close> that resolves \<open>resource.parents\<close>; the result is
  \<open>createdParents\<close> (\<open>undefined\<close> when the resource has no parents).
\<close>

definition resolve_parents ::
  "env \<Rightarrow> state \<Rightarrow> val \<Rightarrow> val \<Rightarrow> ((error + val) \<times> state) option" where
  "resolve_parents E s resource info =
     (let rp = jsprop (heap s) resource ''parents'' in
      if truthy rp \<and> truthy (jsprop (heap s) rp ''length'') then
        (case createParents E s rp info of
           None \<Rightarrow> None
         | Some (Inl e, s1) \<Rightarrow> Some (Inl e, s1)
         | Some (Inr createdParents, s1) \<Rightarrow>
             if \<not> truthy createdParents \<or> \<not> truthy (jsprop (heap s1) createdParents ''length'')
             then Some (Inr createdParents,
                        s1\<lparr>heap := delete_prop (heap s1) resource ''parents''\<rparr>)
             else
               (case array_items (heap s1) createdParents of
                  Inl e \<Rightarrow> Some (Inl e, s1)
                | Inr items \<Rightarrow>
                    (case item_ids (heap s1) items of
                       Inl e \<Rightarrow> Some (Inl e, s1)
                     | Inr ids \<Rightarrow>
                         (case alloc (heap s1) (Arr ids []) of
                            (h2, idsv) \<Rightarrow>
                              (case set_prop h2 resource ''parents'' idsv of
                                 Inl e \<Rightarrow> Some (Inl e, s1\<lparr>heap := h2\<rparr>)
                               | Inr h3 \<Rightarrow> Some (Inr createdParents, s1\<lparr>heap := h3\<rparr>))))))
      else Some (Inr VUndefined, s))"

text \<open>
  The two requests of an upload, shared by \<open>create\<close> and \<open>update\<close>:
  \<open>_initializeSession\<close>, then \<open>_upload\<close> with \<open>media.body\<close> and \<open>media.mimeType\<close>.
\<close>

definition send_file ::
  "env \<Rightarrow> state \<Rightarrow> val \<Rightarrow> val \<Rightarrow> string option \<Rightarrow> val \<Rightarrow> (error + val) \<times> state" where
  "send_file E s token resource fileId media =
     (case priv_initializeSession E s token resource fileId of
        (Inl e, s1) \<Rightarrow> (Inl e, s1)
      | (Inr url, s1) \<Rightarrow>
          (case get_prop (heap s1) media ''body'' of
             Inl e \<Rightarrow> (Inl e, s1)
           | Inr body1 \<Rightarrow>
               priv_upload E s1 token url body1 (jsprop (heap s1) media ''mimeType'')))"

text \<open>\<open>create(resource, media, auth)\<close>\<close>

definition create ::
  "inst \<Rightarrow> env \<Rightarrow> state \<Rightarrow> val \<Rightarrow> val \<Rightarrow> val \<Rightarrow> ((error + val) \<times> state) option" where
  "create i E s resource media a =
     (case default_mimeType i (heap s) resource of
        Inl e \<Rightarrow> Some (Inl e, s)
      | Inr h1 \<Rightarrow>
          (case auth E (s\<lparr>heap := h1\<rparr>) a of
             (Inl e, s1) \<Rightarrow> Some (Inl e, s1)
           | (Inr info, s1) \<Rightarrow>
               (case get_prop (heap s1) info ''accessToken'' of
                  Inl e \<Rightarrow> Some (Inl e, s1)
                | Inr token \<Rightarrow>
                    (case resolve_parents E s1 resource info of
                       None \<Rightarrow> None
                     | Some (Inl e, s2) \<Rightarrow> Some (Inl e, s2)
                     | Some (Inr createdParents, s2) \<Rightarrow>
                         (case send_file E s2 token resource None media of
                            (Inl e, s3) \<Rightarrow> Some (Inl e, s3)
                          | (Inr result, s3) \<Rightarrow>
                              if truthy createdParents then
                                (case set_prop (heap s3) result ''parents'' createdParents of
                                   Inl e \<Rightarrow> Some (Inl e, s3)
                                 | Inr h4 \<Rightarrow> Some (Inr result, s3\<lparr>heap := h4\<rparr>))
                              else Some (Inr result, s3))))))"

text \<open>\<open>update(fileId, resource, media, auth)\<close>\<close>

definition update ::
  "inst \<Rightarrow> env \<Rightarrow> state \<Rightarrow> string option \<Rightarrow> val \<Rightarrow> val \<Rightarrow> val \<Rightarrow> (error + val) \<times> state" where
  "update i E s fileId resource media a =
     (case default_mimeType i (heap s) resource of
        Inl e \<Rightarrow> (Inl e, s)
      | Inr h1 \<Rightarrow>
          (case auth E (s\<lparr>heap := h1\<rparr>) a of
             (Inl e, s1) \<Rightarrow> (Inl e, s1)
           | (Inr info, s1) \<Rightarrow>
               (case get_prop (heap s1) info ''accessToken'' of
                  Inl e \<Rightarrow> (Inl e, s1)
                | Inr token \<Rightarrow> send_file E s1 token resource fileId media)))"

subsection \<open>Listing the application's folders\<close>

text \<open>
  \<open>_listAppFolders(auth)\<close>. The URL is the one the source builds from its two query
  parameters with \<open>encodeURIComponent\<close>.
\<close>

definition priv_listAppFolders :: "env \<Rightarrow> state \<Rightarrow> val \<Rightarrow> (error + val) \<times> state" where
  "priv_listAppFolders E s a =
     (let rq = \<lparr>req_method = ''GET'',
                req_url = VStr (''https://www.googleapis.com/drive/v3/files?''
                  @ ''q=trashed%20%3D%20false%20and%20mimeType%3D%22application''
                  @ ''%2Fvnd.google-apps.folder%22&orderBy=modifiedTime%20desc&''),
                req_bearer = jsprop (heap s) a ''accessToken'',
                req_headers = [(''accept'', VStr ''application/json'')],
                req_body = None\<rparr>
      in case net_request E (trace s) rq of
           NetError e \<Rightarrow> (Inl (Rejection e), emit s (Http rq))
         | Response r \<Rightarrow> checked_body E (emit s (Http rq)) r)"

text \<open>\<open>listAppFolders(interactive)\<close>\<close>

definition listAppFolders :: "env \<Rightarrow> state \<Rightarrow> val \<Rightarrow> (error + val) \<times> state" where
  "listAppFolders E s interactive =
     (case settle_auth (emit s (GetAuthToken interactive))
             (getAuthToken E (trace s) interactive) of
        (Inl e, s1) \<Rightarrow> (Inl e, s1)
      | (Inr a, s1) \<Rightarrow>
          if truthy a then priv_listAppFolders E s1 a else (Inr VUndefined, s1))"

text \<open>The callback of \<open>result.files.forEach\<close> in \<open>_listAppFoldersHandler\<close>.\<close>

fun copy_folders :: "store \<Rightarrow> val \<Rightarrow> val list \<Rightarrow> error + store" where
  "copy_folders h folders [] = Inr h"
| "copy_folders h folders (item # items) =
     (if nullish item then Inl TypeError
      else case alloc h (Obj [(''id'', jsprop h item ''id''),
                              (''name'', jsprop h item ''name'')]) of
             (h1, ob) \<Rightarrow>
               (case array_push h1 folders ob of
                  Inl e \<Rightarrow> Inl e
                | Inr h2 \<Rightarrow> copy_folders h2 folders items))"

text \<open>
  \<open>_listAppFoldersHandler(e, requestId, opts)\<close>. The \<open>catch\<close> sends the cause (an
  \<open>Error\<close> as an object with its message); a promise that is never settled sends
  nothing.
\<close>

definition listAppFoldersHandler :: "env \<Rightarrow> state \<Rightarrow> val \<Rightarrow> val \<Rightarrow> state" where
  "listAppFoldersHandler E s requestId opts =
     (if truthy (cachedFolders s) then emit s (SendResult requestId (cachedFolders s))
      else
        let interactive =
              (if \<not> truthy opts then VBool True
               else if jsprop (heap s) opts ''interactive'' = VUndefined then VBool True
               else jsprop (heap s) opts ''interactive'')
        in case listAppFolders E s interactive of
             (Inl e, s1) \<Rightarrow> if e = Unsettled then s1 else emit s1 (SendError requestId e)
           | (Inr result, s1) \<Rightarrow>
               (case alloc (heap s1) (Arr [] []) of
                  (h2, folders) \<Rightarrow>
                    (case get_prop h2 result ''files'' of
                       Inl e \<Rightarrow> emit (s1\<lparr>heap := h2\<rparr>) (SendError requestId e)
                     | Inr files \<Rightarrow>
                         (case (if truthy files
                                then (case array_items h2 files of
                                        Inl e \<Rightarrow> Inl e
                                      | Inr items \<Rightarrow> copy_folders h2 folders items)
                                else Inr h2) of
                            Inl e \<Rightarrow> emit (s1\<lparr>heap := h2\<rparr>) (SendError requestId e)
                          | Inr h3 \<Rightarrow>
                              emit (s1\<lparr>heap := h3, cachedFolders := folders\<rparr>)
                                (SendResult requestId folders)))))"

section \<open>The older copies of the class\<close>

subsection \<open>Authorization and upload in \<open>lib/drive-export.js\<close>\<close>

text \<open>
  \<open>auth(auth)\<close> of the first version: an argument with an \<open>accessToken\<close> resolves with
  \<open>auth.accessToken\<close>, the token itself and not the argument; the two calls of the
  Authorizer are those of the later versions.
\<close>

definition lib_auth :: "env \<Rightarrow> state \<Rightarrow> val \<Rightarrow> (error + val) \<times> state" where
  "lib_auth E s a =
     (if truthy a then
        (if truthy (jsprop (heap s) a ''accessToken'')
         then (Inr (jsprop (heap s) a ''accessToken''), s)
         else settle_auth (emit s (LaunchWebAuthFlow a))
                (launchWebAuthFlow E (trace s) (heap s) a))
      else settle_auth (emit s (GetAuthToken (VBool True)))
             (getAuthToken E (trace s) (VBool True)))"

text \<open>
  \<open>create(resource, media, auth)\<close> and \<open>update(fileId, resource, media, auth)\<close> of the
  first version. There are no parents to resolve. Both read \<open>info.accessToken\<close> of what
  \<open>auth\<close> resolved with; \<open>_initializeSession\<close> and \<open>_upload\<close> are the same text as in the
  later versions.
\<close>

definition lib_create ::
  "inst \<Rightarrow> env \<Rightarrow> state \<Rightarrow> val \<Rightarrow> val \<Rightarrow> val \<Rightarrow> (error + val) \<times> state" where
  "lib_create i E s resource media a =
     (case default_mimeType i (heap s) resource of
        Inl e \<Rightarrow> (Inl e, s)
      | Inr h1 \<Rightarrow>
          (case lib_auth E (s\<lparr>heap := h1\<rparr>) a of
             (Inl e, s1) \<Rightarrow> (Inl e, s1)
           | (Inr info, s1) \<Rightarrow>
               (case get_prop (heap s1) info ''accessToken'' of
                  Inl e \<Rightarrow> (Inl e, s1)
                | Inr token \<Rightarrow> send_file E s1 token resource None media)))"

definition lib_update ::
  "inst \<Rightarrow> env \<Rightarrow> state \<Rightarrow> string option \<Rightarrow> val \<Rightarrow> val \<Rightarrow> val \<Rightarrow> (error + val) \<times> state" where
  "lib_update i E s fileId resource media a =
     (case default_mimeType i (heap s) resource of
        Inl e \<Rightarrow> (Inl e, s)
      | Inr h1 \<Rightarrow>
          (case lib_auth E (s\<lparr>heap := h1\<rparr>) a of
             (Inl e, s1) \<Rightarrow> (Inl e, s1)
           | (Inr info, s1) \<Rightarrow>
               (case get_prop (heap s1) info ''accessToken'' of
                  Inl e \<Rightarrow> (Inl e, s1)
                | Inr token \<Rightarrow> send_file E s1 token resource fileId media)))"

subsection \<open>Normalization of parents in the class with chained promises\<close>

text \<open>
  \<open>_normalizeParents(parents)\<close> of that version. For a string entry the test reads
  \<open>name.toLowerCase()\<close>, and \<open>name\<close> is declared nowhere: evaluating the test raises
  \<open>ReferenceError\<close>, whatever the string is. The branch for the other entries is the one
  of the latest version.
\<close>

fun normalize_items_002 :: "store \<Rightarrow> val \<Rightarrow> val list \<Rightarrow> error + store" where
  "normalize_items_002 h r [] = Inr h"
| "normalize_items_002 h r (VStr s # items) = Inl ReferenceError"
| "normalize_items_002 h r (item # items) =
     (if nullish item then Inl TypeError
      else if \<not> truthy (jsprop h item ''name'') \<and> \<not> truthy (jsprop h item ''id'')
        then normalize_items_002 h r items
      else case array_push h r item of
             Inl e \<Rightarrow> Inl e
           | Inr h1 \<Rightarrow> normalize_items_002 h1 r items)"

definition priv_normalizeParents_002 :: "store \<Rightarrow> val \<Rightarrow> error + store \<times> val" where
  "priv_normalizeParents_002 h parents =
     (case alloc h (Arr [] []) of
        (h1, r) \<Rightarrow>
          (case array_items h1 parents of
             Inl e \<Rightarrow> Inl e
           | Inr items \<Rightarrow>
               (case normalize_items_002 h1 r items of
                  Inl e \<Rightarrow> Inl e
                | Inr h2 \<Rightarrow> Inr (h2, r))))"
section \<open>Predicates used in the statements\<close>

text \<open>
  \<open>keeps k h h'\<close>: every object that has a set (truthy) property \<open>k\<close> in the store \<open>h\<close>
  has the same value for it in \<open>h'\<close>. \<open>extends P s s'\<close>: the events of \<open>s'\<close> are those of
  \<open>s\<close> followed by events that all satisfy \<open>P\<close>.
\<close>

definition keeps :: "string \<Rightarrow> store \<Rightarrow> store \<Rightarrow> bool" where
  "keeps k h h' \<longleftrightarrow>
     (\<forall>x. truthy (jsprop h (VRef x) k) \<longrightarrow> jsprop h' (VRef x) k = jsprop h (VRef x) k)"

definition extends :: "(event \<Rightarrow> bool) \<Rightarrow> state \<Rightarrow> state \<Rightarrow> bool" where
  "extends P s s' \<longleftrightarrow> (\<exists>evs. trace s' = trace s @ evs \<and> list_all P evs)"

text \<open>
  An event that is not a call of the Authorizer and, when it is an HTTP request, carries
  the bearer token \<open>tok\<close>.
\<close>

fun bearer_only :: "val \<Rightarrow> event \<Rightarrow> bool" where
  "bearer_only tok (Http rq) = (req_bearer rq = tok)"
| "bearer_only tok (LaunchWebAuthFlow a) = False"
| "bearer_only tok (GetAuthToken i) = False"
| "bearer_only tok ev = True"

text \<open>
  The three kinds of request the class issues while saving a file, by what the source
  puts into them: the session initialization (token, file id, JSON text of the
  resource), the upload (token, session URL, body, content type) and the creation of a
  folder (token, JSON text of the folder resource).
\<close>

definition session_request :: "val \<Rightarrow> string option \<Rightarrow> val \<Rightarrow> request" where
  "session_request token fileId jtext =
     \<lparr>req_method = (if fileId = None \<or> fileId = Some [] then ''POST'' else ''PATCH''),
      req_url = VStr (''https://www.googleapis.com/upload/drive/v3/files''
                  @ (if fileId = None \<or> fileId = Some [] then [] else ''/'' @ the fileId)
                  @ ''?uploadType=resumable''),
      req_bearer = token,
      req_headers = [(''Content-Type'', VStr ''application/json; charset=UTF-8'')],
      req_body = Some jtext\<rparr>"

definition upload_request :: "val \<Rightarrow> val \<Rightarrow> val \<Rightarrow> val \<Rightarrow> request" where
  "upload_request token url body1 mimeType =
     \<lparr>req_method = ''PUT'', req_url = url, req_bearer = token,
      req_headers = [(''content-type'', mimeType)], req_body = Some body1\<rparr>"

definition folder_request :: "val \<Rightarrow> val \<Rightarrow> request" where
  "folder_request token jtext =
     \<lparr>req_method = ''POST'',
      req_url = VStr ''https://content.googleapis.com/drive/v3/files?alt=json'',
      req_bearer = token,
      req_headers = [(''content-type'', VStr ''application/json'')],
      req_body = Some jtext\<rparr>"

text \<open>
  \<open>tok_rel a tok s s'\<close>: if the object \<open>a\<close> has the access token \<open>tok\<close> in \<open>s\<close>, it
  still has it in \<open>s'\<close>, and from \<open>s\<close> to \<open>s'\<close> the Authorizer was not called and every
  request carried \<open>tok\<close>.
\<close>

definition tok_rel :: "val \<Rightarrow> val \<Rightarrow> state \<Rightarrow> state \<Rightarrow> bool" where
  "tok_rel a tok s s' \<longleftrightarrow>
     (jsprop (heap s) a ''accessToken'' = tok \<longrightarrow>
        jsprop (heap s') a ''accessToken'' = tok \<and> extends (bearer_only tok) s s')"

text \<open>
  What the specification says of \<open>normalize\<close>, entry by entry. A string entry stands for
  the object \<open>entry_of s\<close>; an entry is kept when it is a string or has a set name or id;
  \<open>normal_of h' n item v\<close> relates an entry to its element \<open>v\<close> of the result: for a string
  a new object (at an address above \<open>n\<close>) that is \<open>entry_of s\<close>, for every other entry the
  entry itself, the same reference.
\<close>

definition entry_of :: "string \<Rightarrow> obj" where
  "entry_of s =
     Obj (if toLowerCase s = ''my drive'' then [(''id'', VStr ''root'')] else [(''name'', VStr s)])"

fun kept :: "store \<Rightarrow> val \<Rightarrow> bool" where
  "kept h (VStr s) = True"
| "kept h item = (truthy (jsprop h item ''name'') \<or> truthy (jsprop h item ''id''))"

fun normal_of :: "store \<Rightarrow> nat \<Rightarrow> val \<Rightarrow> val \<Rightarrow> bool" where
  "normal_of h' n (VStr s) v =
     (case v of VRef x \<Rightarrow> n < x \<and> x < length h' \<and> h' ! x = entry_of s | _ \<Rightarrow> False)"
| "normal_of h' n item v = (v = item)"

text \<open>No entry is \<open>null\<close> or \<open>undefined\<close>, and every reference points into the store.\<close>

definition proper_items :: "store \<Rightarrow> val list \<Rightarrow> bool" where
  "proper_items h items \<longleftrightarrow>
     (\<forall>item \<in> set items. \<not> nullish item \<and> (\<forall>x. item = VRef x \<longrightarrow> x < length h))"

text \<open>An event that is not a call of the Authorizer.\<close>

fun no_authorizer :: "event \<Rightarrow> bool" where
  "no_authorizer (LaunchWebAuthFlow a) = False"
| "no_authorizer (GetAuthToken i) = False"
| "no_authorizer ev = True"

text \<open>The first event of a run that leads from \<open>s\<close> to \<open>s'\<close> is \<open>ev\<close>.\<close>

definition calls_first :: "event \<Rightarrow> state \<Rightarrow> state \<Rightarrow> bool" where
  "calls_first ev s s' \<longleftrightarrow> prefix (trace s @ [ev]) (trace s')"

text \<open>An event that is not an HTTP request.\<close>

fun not_http :: "event \<Rightarrow> bool" where
  "not_http (Http rq) = False"
| "not_http ev = True"

text \<open>
  The events of parent resolution: calls of the Authorizer and requests that create a
  folder. A folder is created with a \<open>POST\<close> to the files endpoint of
  \<open>content.googleapis.com\<close>; the session is initialized at the upload endpoint of
  \<open>www.googleapis.com\<close>, and the upload is a \<open>PUT\<close>.
\<close>

fun resolution_event :: "event \<Rightarrow> bool" where
  "resolution_event (Http rq) =
     (req_method rq = ''POST''
      \<and> req_url rq = VStr ''https://content.googleapis.com/drive/v3/files?alt=json'')"
| "resolution_event (LaunchWebAuthFlow a) = True"
| "resolution_event (GetAuthToken i) = True"
| "resolution_event ev = False"

fun session_event :: "event \<Rightarrow> bool" where
  "session_event (Http rq) =
     (req_method rq = ''POST''
      \<and> req_url rq = VStr ''https://www.googleapis.com/upload/drive/v3/files?uploadType=resumable'')"
| "session_event ev = False"

fun upload_event :: "event \<Rightarrow> bool" where
  "upload_event (Http rq) = (req_method rq = ''PUT'')"
| "upload_event ev = False"

text \<open>
  \<open>parents_field h1 created h2 resource\<close>: with \<open>created\<close> the array that
  \<open>createParents\<close> returned in the store \<open>h1\<close>, the resource has in \<open>h2\<close> no \<open>parents\<close>
  when \<open>created\<close> is empty, and otherwise an array of the ids that the elements of
  \<open>created\<close> had in \<open>h1\<close>.
\<close>

definition parents_field :: "store \<Rightarrow> val \<Rightarrow> store \<Rightarrow> val \<Rightarrow> bool" where
  "parents_field h1 created h2 resource \<longleftrightarrow>
     (if \<not> truthy created \<or> \<not> truthy (jsprop h1 created ''length'')
      then jsprop h2 resource ''parents'' = VUndefined
      else case array_items h1 created of
             Inl e \<Rightarrow> False
           | Inr items \<Rightarrow>
               (case item_ids h1 items of
                  Inl e \<Rightarrow> False
                | Inr ids \<Rightarrow> array_items h2 (jsprop h2 resource ''parents'') = Inr ids))"

text \<open>The elements of \<open>this.cachedFolders\<close>; none when it is not set.\<close>

definition cache_items :: "state \<Rightarrow> error + val list" where
  "cache_items s =
     (if truthy (cachedFolders s) then array_items (heap s) (cachedFolders s) else Inr [])"

section \<open>Concrete collaborators and stores\<close>

text \<open>
  Small concrete runs, used to instantiate the theorems below. \<open>quota_env\<close> answers every
  request with status 403 and the body \<open>quota exceeded\<close> in two chunks;
  \<open>empty_location_env\<close> answers with status 200 and a \<open>location\<close> header whose value is
  the empty string. \<open>file_state\<close> holds one resource, \<open>{name: 'f.json'}\<close>, at address 0.
\<close>

definition quota_env :: env where
  "quota_env =
     \<lparr>launchWebAuthFlow = (\<lambda>t h a. Inr None),
      getAuthToken = (\<lambda>t i. Inr None),
      net_request = (\<lambda>t rq. Response \<lparr>statusCode = 403, location = HAbsent,
                                        chunks = [''quota '', ''exceeded'']\<rparr>),
      JSON_parse = (\<lambda>s. None)\<rparr>"

definition empty_location_env :: env where
  "empty_location_env =
     \<lparr>launchWebAuthFlow = (\<lambda>t h a. Inr None),
      getAuthToken = (\<lambda>t i. Inr None),
      net_request = (\<lambda>t rq. Response \<lparr>statusCode = 200, location = HSingle [], chunks = []\<rparr>),
      JSON_parse = (\<lambda>s. None)\<rparr>"

definition file_state :: state where
  "file_state =
     \<lparr>heap = [Obj [(''name'', VStr ''f.json'')]], cachedFolders = VUndefined, trace = []\<rparr>"

definition file_request :: request where
  "file_request =
     \<lparr>req_method = ''POST'',
      req_url = VStr ''https://www.googleapis.com/upload/drive/v3/files?uploadType=resumable'',
      req_bearer = VStr ''tok'',
      req_headers = [(''Content-Type'', VStr ''application/json; charset=UTF-8'')],
      req_body = Some (VStr (CHR ''{'' # quote ''name'' @ CHR '':'' # quote ''f.json'' @ ''}''))\<rparr>"

text \<open>
  \<open>arc_inst\<close> is \<open>new DriveExport(DriveExport.arcDefaults)\<close>, as the tests and the demo
  build it. \<open>media_store\<close> holds two configurations: at address 0 one whose body is the
  object \<open>{property: 'value'}\<close> and that names no type, at address 2 one that names a
  type and has no body.
\<close>

definition arc_inst :: inst where
  "arc_inst = constructor [arcDefaults] (VRef 0)"

definition media_store :: store where
  "media_store =
     [Obj [(''body'', VRef 1)],
      Obj [(''property'', VStr ''value'')],
      Obj [(''type'', VStr ''text/plain'')]]"

text \<open>
  \<open>upload_env\<close> is a server that accepts everything: a session initialization is
  answered with a \<open>location\<close> header, the upload with the JSON text of \<open>{id: 'file1'}\<close>,
  and the creation of a folder with \<open>{id: 'F<n>'}\<close>, where \<open>n\<close> is the number of events
  before the request. Its Authorizer always grants a token. \<open>create_state\<close> holds a
  resource \<open>{name: 'f.json'}\<close> at address 0, a media payload at 1 and the auth argument
  \<open>{accessToken: 'tok'}\<close> at 2.
\<close>

definition upload_env :: env where
  "upload_env =
     \<lparr>launchWebAuthFlow = (\<lambda>t h a. Inr (Some (JObj [(''accessToken'', JStr ''flow-token'')]))),
      getAuthToken = (\<lambda>t i. Inr (Some (JObj [(''accessToken'', JStr ''default-token'')]))),
      net_request = (\<lambda>t rq.
         if req_method rq = ''PUT''
           then Response \<lparr>statusCode = 200, location = HAbsent, chunks = [''file'']\<rparr>
         else if req_url rq = VStr ''https://content.googleapis.com/drive/v3/files?alt=json''
           then Response \<lparr>statusCode = 200, location = HAbsent,
                           chunks = [''folder'', show_nat (length t)]\<rparr>
         else Response \<lparr>statusCode = 200, location = HMany [''https://upload/1''],
                         chunks = []\<rparr>),
      JSON_parse = (\<lambda>s.
         if s = ''file'' then Some (JObj [(''id'', JStr ''file1'')])
         else if take 6 s = ''folder'' then Some (JObj [(''id'', JStr (''F'' @ drop 6 s))])
         else None)\<rparr>"

definition create_state :: state where
  "create_state =
     \<lparr>heap = [Obj [(''name'', VStr ''f.json'')],
              Obj [(''mimeType'', VStr ''application/json''), (''body'', VStr ''{}'')],
              Obj [(''accessToken'', VStr ''tok'')]],
      cachedFolders = VUndefined, trace = []\<rparr>"

definition put_request :: request where
  "put_request =
     \<lparr>req_method = ''PUT'', req_url = VStr ''https://upload/1'', req_bearer = VStr ''tok'',
      req_headers = [(''content-type'', VStr ''application/json'')],
      req_body = Some (VStr ''{}'')\<rparr>"

text \<open>
  \<open>parents_state\<close>: a resource with four parents, the root sentinel, a folder that has
  an id, a name, and a folder object that has only a name; a media payload at address
  4 and the auth argument \<open>{accessToken: 'tok'}\<close> at 5. \<open>parents_final\<close> is the state after
  \<open>create\<close> has run on it against \<open>upload_env\<close>.
\<close>

definition parents_state :: state where
  "parents_state =
     \<lparr>heap = [Obj [(''name'', VStr ''f.json''), (''parents'', VRef 1)],
              Arr [VStr ''My Drive'', VRef 2, VStr ''Projects'', VRef 3] [],
              Obj [(''name'', VStr ''Existing''), (''id'', VStr ''f1'')],
              Obj [(''name'', VStr ''Other'')],
              Obj [(''mimeType'', VStr ''application/json''), (''body'', VStr ''{}'')],
              Obj [(''accessToken'', VStr ''tok'')]],
      cachedFolders = VUndefined, trace = []\<rparr>"

definition folder_text :: "string \<Rightarrow> val" where
  "folder_text name =
     VStr (CHR ''{'' # quote ''name'' @ CHR '':'' # quote name @ CHR '','' # quote ''mimeType''
           @ CHR '':'' # quote ''application/vnd.google-apps.folder'' @ ''}'')"

definition parents_text :: val where
  "parents_text =
     VStr (CHR ''{'' # quote ''name'' @ CHR '':'' # quote ''f.json'' @ CHR '','' # quote ''parents''
           @ CHR '':'' # CHR ''['' # quote ''root'' @ CHR '','' # quote ''f1'' @ CHR '','' # quote ''F0''
           @ CHR '','' # quote ''F1'' @ '']}'')"

definition parents_final :: state where
  "parents_final =
     \<lparr>heap = [Obj [(''name'', VStr ''f.json''), (''parents'', VRef 15)],
              Arr [VStr ''My Drive'', VRef 2, VStr ''Projects'', VRef 3] [],
              Obj [(''name'', VStr ''Existing''), (''id'', VStr ''f1'')],
              Obj [(''name'', VStr ''Other''), (''id'', VStr ''F1'')],
              Obj [(''mimeType'', VStr ''application/json''), (''body'', VStr ''{}'')],
              Obj [(''accessToken'', VStr ''tok'')],
              Arr [] [],
              Obj [(''id'', VStr ''root'')],
              Obj [(''name'', VStr ''Projects''), (''id'', VStr ''F0'')],
              Arr [VRef 7, VRef 2, VRef 8, VRef 3] [],
              Obj [(''name'', VStr ''Projects''),
                   (''mimeType'', VStr ''application/vnd.google-apps.folder'')],
              Obj [(''id'', VStr ''F0'')],
              Arr [VRef 8, VRef 3] [],
              Obj [(''name'', VStr ''Other''),
                   (''mimeType'', VStr ''application/vnd.google-apps.folder'')],
              Obj [(''id'', VStr ''F1'')],
              Arr [VStr ''root'', VStr ''f1'', VStr ''F0'', VStr ''F1''] [],
              Obj [(''id'', VStr ''file1''), (''parents'', VRef 9)]],
      cachedFolders = VRef 12,
      trace = [Http (folder_request (VStr ''tok'') (folder_text ''Projects'')),
               Http (folder_request (VStr ''tok'') (folder_text ''Other'')),
               Http (session_request (VStr ''tok'') None parents_text),
               Http put_request]\<rparr>"

text \<open>
  \<open>list_env\<close> grants a token and answers the folder listing with one folder.
  \<open>list_state\<close> holds the options \<open>{interactive: false}\<close> at address 0 and
  \<open>{interactive: true}\<close> at 1; \<open>list_cached\<close> is the state after the first listing.
\<close>

definition list_env :: env where
  "list_env =
     \<lparr>launchWebAuthFlow = (\<lambda>t h a. Inr None),
      getAuthToken = (\<lambda>t i. Inr (Some (JObj [(''accessToken'', JStr ''tok'')]))),
      net_request = (\<lambda>t rq. Response \<lparr>statusCode = 200, location = HAbsent, chunks = [''list'']\<rparr>),
      JSON_parse = (\<lambda>s. if s = ''list''
         then Some (JObj [(''files'', JArr [JObj [(''kind'', JStr ''drive#file''), (''id'', JStr ''a1''),
                                                  (''name'', JStr ''Reports'')]])])
         else None)\<rparr>"

definition list_state :: state where
  "list_state =
     \<lparr>heap = [Obj [(''interactive'', VBool False)], Obj [(''interactive'', VBool True)]],
      cachedFolders = VUndefined, trace = []\<rparr>"


definition list_request :: request where
  "list_request =
     \<lparr>req_method = ''GET'',
      req_url = VStr (''https://www.googleapis.com/drive/v3/files?''
        @ ''q=trashed%20%3D%20false%20and%20mimeType%3D%22application''
        @ ''%2Fvnd.google-apps.folder%22&orderBy=modifiedTime%20desc&''),
      req_bearer = VStr ''tok'',
      req_headers = [(''accept'', VStr ''application/json'')],
      req_body = None\<rparr>"

definition list_cached :: state where
  "list_cached =
     \<lparr>heap = [Obj [(''interactive'', VBool False)],
              Obj [(''interactive'', VBool True)],
              Obj [(''accessToken'', VStr ''tok'')],
              Obj [(''kind'', VStr ''drive#file''), (''id'', VStr ''a1''),
                   (''name'', VStr ''Reports'')],
              Arr [VRef 3] [],
              Obj [(''files'', VRef 4)],
              Arr [VRef 7] [],
              Obj [(''id'', VStr ''a1''), (''name'', VStr ''Reports'')]],
      cachedFolders = VRef 6,
      trace = [GetAuthToken (VBool False), Http list_request, SendResult (VNum 1) (VRef 6)]\<rparr>"

text \<open>
  \<open>id_state\<close>: the parents \<open>[{id: 'f1'}]\<close> at address 0 and the auth argument at 2.
\<close>

definition id_state :: state where
  "id_state =
     \<lparr>heap = [Arr [VRef 1] [], Obj [(''id'', VStr ''f1'')], Obj [(''accessToken'', VStr ''tok'')]],
      cachedFolders = VUndefined, trace = []\<rparr>"

section \<open>Facts about the store and about JSON text\<close>

lemma deref_new: "deref (h @ [ob]) (length h) = ob"
  by (simp add: deref_def)

lemma deref_old: "a < length h \<Longrightarrow> deref (h @ h1) a = deref h a"
  by (simp add: deref_def nth_append)

lemma arc_inst_fields:
  "mime arc_inst = VUndefined"
  "fileDescription arc_inst = VStr ''Advanced REST client data export file.''"
  "fileType arc_inst = VStr ''application/json''"
  by (simp_all add: arc_inst_def constructor_def arcDefaults_def deref_def lookup_def)

text \<open>Only \<open>undefined\<close> has no JSON text.\<close>

lemma stringify_defined:
  assumes "stringify h path v = Inr None"
  shows "v = VUndefined"
  using assms by (cases v) (auto simp add: Let_def split: if_splits obj.splits option.splits)

lemma JSON_stringify_string:
  assumes "JSON_stringify h v = Inr b" and "v \<noteq> VUndefined"
  shows "is_string b"
  using assms stringify_defined [of h "[]" v]
  by (auto simp add: JSON_stringify_def split: sum.splits option.splits)

text \<open>Which store updates keep a property of every object.\<close>

lemma keeps_refl: "keeps k h h"
  by (simp add: keeps_def)

lemma keeps_trans: "keeps k h h1 \<Longrightarrow> keeps k h1 h2 \<Longrightarrow> keeps k h h2"
  by (simp add: keeps_def)

lemma lookup_Nil: "lookup [] k = VUndefined"
  by (simp add: lookup_def)

lemma truthy_jsprop_valid: "truthy (jsprop h (VRef x) k) \<Longrightarrow> x < length h"
  by (cases "x < length h") (simp_all add: deref_def lookup_Nil)

lemma keeps_append: "keeps k h (h @ h1)"
  unfolding keeps_def
proof (intro allI impI)
  fix x assume "truthy (jsprop h (VRef x) k)"
  then have "x < length h" by (rule truthy_jsprop_valid)
  then show "jsprop (h @ h1) (VRef x) k = jsprop h (VRef x) k"
    by (simp add: deref_old)
qed

lemma lookup_update: "lookup (AList.update k' u ps) k = (if k = k' then u else lookup ps k)"
  by (simp add: lookup_def update_conv')

lemma lookup_delete: "lookup (AList.delete k' ps) k = (if k = k' then VUndefined else lookup ps k)"
  by (simp add: lookup_def delete_conv')

lemma deref_update:
  "deref (h[a := ob]) x = (if x = a \<and> a < length h then ob else deref h x)"
  by (simp add: deref_def nth_list_update)

lemma keeps_set_prop:
  assumes "set_prop h v k' u = Inr h'" and "k \<noteq> k'"
  shows "keeps k h h'"
  using assms
  by (cases v) (auto simp add: keeps_def deref_update lookup_update split: obj.splits if_splits)

lemma keeps_delete_prop:
  assumes "k \<noteq> k'"
  shows "keeps k h (delete_prop h v k')"
  using assms
  by (cases v) (auto simp add: keeps_def deref_update lookup_delete split: obj.splits if_splits)

lemma keeps_push:
  assumes "array_push h r v = Inr h'" and "k \<noteq> ''length''"
  shows "keeps k h h'"
  using assms
  by (cases r) (auto simp add: keeps_def deref_update split: obj.splits if_splits)

lemma keeps_shift:
  assumes "array_shift h r = Inr (v, h')" and "k \<noteq> ''length''"
  shows "keeps k h h'"
  using assms
  by (cases r) (auto simp add: keeps_def deref_update split: obj.splits list.splits if_splits)

lemma alloc_append: "alloc h ob = (h', v) \<Longrightarrow> h' = h @ [ob] \<and> v = VRef (length h)"
  by (auto simp add: alloc_def)

lemma alloc_json_append:
  "alloc_json h j = (h', v) \<Longrightarrow> \<exists>h1. h' = h @ h1"
  "alloc_jsons h js = (h', vs) \<Longrightarrow> \<exists>h1. h' = h @ h1"
  "alloc_members h ms = (h', ps) \<Longrightarrow> \<exists>h1. h' = h @ h1"
proof (induction h j and h js and h ms arbitrary: h' v and h' vs and h' ps
    rule: alloc_json_alloc_jsons_alloc_members.induct)
  case (5 h js)
  then show ?case by (fastforce simp add: alloc_def split: prod.splits)
next
  case (6 h ms)
  then show ?case by (fastforce simp add: alloc_def split: prod.splits)
next
  case (8 h j js)
  then show ?case by (fastforce split: prod.splits)
next
  case (10 h m ms)
  then show ?case by (fastforce split: prod.splits)
qed auto

section \<open>Facts about the runs: events and the token\<close>

lemma extends_refl: "extends P s s"
  by (simp add: extends_def)

lemma extends_trans: "extends P s s1 \<Longrightarrow> extends P s1 s2 \<Longrightarrow> extends P s s2"
  by (auto simp add: extends_def)

lemma extends_emit: "P ev \<Longrightarrow> extends P s (emit s ev)"
  by (simp add: extends_def emit_def)

lemma extends_same_trace: "trace s' = trace s \<Longrightarrow> extends P s s'"
  by (simp add: extends_def)

lemma extends_from: "trace t = trace s \<Longrightarrow> extends P t s' \<Longrightarrow> extends P s s'"
  by (simp add: extends_def)

lemma settle_auth_frame:
  assumes "settle_auth s r = (res, s')"
  shows "keeps k (heap s) (heap s') \<and> trace s' = trace s \<and> cachedFolders s' = cachedFolders s"
  using assms
  by (auto simp add: settle_auth_def keeps_refl keeps_append
      split: sum.splits option.splits prod.splits dest!: alloc_json_append(1))

lemma auth_keeps:
  assumes "auth E s a = (res, s')"
  shows "keeps k (heap s) (heap s')"
  using assms settle_auth_frame [of "emit s (LaunchWebAuthFlow a)" _ res s' k]
    settle_auth_frame [of "emit s (GetAuthToken (VBool True))" _ res s' k]
  by (auto simp add: auth_def keeps_refl emit_def split: if_splits)

lemma auth_token:
  assumes "truthy a" and "truthy (jsprop (heap s) a ''accessToken'')"
  shows "auth E s a = (Inr a, s)"
  using assms by (simp add: auth_def)

lemma parse_body_frame:
  assumes "parse_body E s r = (res, s')"
  shows "keeps k (heap s) (heap s') \<and> trace s' = trace s \<and> cachedFolders s' = cachedFolders s"
  using assms
  by (auto simp add: parse_body_def keeps_refl keeps_append
      split: option.splits prod.splits dest!: alloc_json_append(1))

lemma checked_body_frame:
  assumes "checked_body E s r = (res, s')"
  shows "keeps k (heap s) (heap s') \<and> trace s' = trace s \<and> cachedFolders s' = cachedFolders s"
  using assms parse_body_frame [of E s r _ s' k]
  by (auto simp add: checked_body_def split: prod.splits sum.splits if_splits)


lemma priv_createParents_rel:
  assumes run: "priv_createParents E s parents a result = Some (res, s')"
    and refl: "\<And>s. R s s"
    and trans: "\<And>s s1 s2. R s s1 \<Longrightarrow> R s1 s2 \<Longrightarrow> R s s2"
    and shift: "\<And>s p h1. array_shift (heap s) parents = Inr (p, h1) \<Longrightarrow> R s (s\<lparr>heap := h1\<rparr>)"
    and push: "\<And>s p h2. array_push (heap s) result p = Inr h2 \<Longrightarrow> R s (s\<lparr>heap := h2\<rparr>)"
    and step: "\<And>s p r s1. create_parent E s p a result = (r, s1) \<Longrightarrow> R s s1"
  shows "R s s'"
proof -
  have "E = E \<and> parents = parents \<and> a = a \<and> result = result \<longrightarrow> R s (snd (res, s'))"
  proof (rule priv_createParents.raw_induct
      [where P = "\<lambda>E0 s0 parents0 a0 result0 y.
          E0 = E \<and> parents0 = parents \<and> a0 = a \<and> result0 = result \<longrightarrow> R s0 (snd y)"],
      goal_cases)
    case (1 rec E0 s0 parents0 a0 result0 y)
    show ?case
    proof (intro impI, elim conjE)
      assume eq: "E0 = E" "parents0 = parents" "a0 = a" "result0 = result"
      note body = "1"(2) [unfolded eq]
      have IH: "R t (snd z)" if "rec E t parents a result = Some z" for t z
        using "1"(1) [OF that] by simp
      show "R s0 (snd y)"
      proof (cases "array_shift (heap s0) parents")
        case (Inl e)
        with body show ?thesis by (auto simp add: refl)
      next
        case (Inr ph)
        obtain p h1 where ph: "ph = (p, h1)" by (cases ph)
        have r1: "R s0 (s0\<lparr>heap := h1\<rparr>)"
          using shift Inr ph by simp
        show ?thesis
        proof (cases "truthy p")
          case False
          with body Inr ph r1 show ?thesis by auto
        next
          case True
          show ?thesis
          proof (cases "truthy (jsprop h1 p ''id'')")
            case hasid: True
            show ?thesis
            proof (cases "array_push h1 result p")
              case (Inl e)
              with body Inr ph True hasid r1 show ?thesis by auto
            next
              case pushed: (Inr h2)
              have r2: "R (s0\<lparr>heap := h1\<rparr>) (s0\<lparr>heap := h2\<rparr>)"
                using push [of "s0\<lparr>heap := h1\<rparr>" p h2] pushed by simp
              have "rec E (s0\<lparr>heap := h2\<rparr>) parents a result = Some y"
                using body Inr ph True hasid pushed by simp
              then have "R (s0\<lparr>heap := h2\<rparr>) (snd y)" by (rule IH)
              with r1 r2 show ?thesis by (blast intro: trans)
            qed
          next
            case noid: False
            obtain r s1 where cp: "create_parent E (s0\<lparr>heap := h1\<rparr>) p a result = (r, s1)"
              by (cases "create_parent E (s0\<lparr>heap := h1\<rparr>) p a result")
            have r2: "R (s0\<lparr>heap := h1\<rparr>) s1" using step cp by blast
            show ?thesis
            proof (cases r)
              case (Inl e)
              with body Inr ph True noid cp have "y = (Inl e, s1)" by simp
              with r1 r2 show ?thesis by (auto intro: trans)
            next
              case (Inr u)
              with body \<open>array_shift (heap s0) parents = Inr ph\<close> ph True noid cp
              have "rec E s1 parents a result = Some y" by simp
              then have "R s1 (snd y)" by (rule IH)
              with r1 r2 show ?thesis by (blast intro: trans)
            qed
          qed
        qed
      qed
    qed
  next
    case 2
    show ?case by (rule run)
  qed
  then show ?thesis by simp
qed


lemma keeps_val:
  assumes "keeps k h h'" and "truthy (jsprop h a k)"
  shows "jsprop h' a k = jsprop h a k"
  using assms by (cases a) (simp_all add: keeps_def)

lemma tok_rel_refl: "tok_rel a tok s s"
  by (simp add: tok_rel_def extends_refl)

lemma tok_rel_trans: "tok_rel a tok s s1 \<Longrightarrow> tok_rel a tok s1 s2 \<Longrightarrow> tok_rel a tok s s2"
  by (auto simp add: tok_rel_def intro: extends_trans)

lemma tok_rel_heap:
  assumes "keeps ''accessToken'' (heap s) (heap s')" and "trace s' = trace s" and "truthy tok"
  shows "tok_rel a tok s s'"
  using assms keeps_val [of "''accessToken''" "heap s" "heap s'" a]
  by (auto simp add: tok_rel_def extends_same_trace)

lemma tok_rel_emit:
  assumes "keeps ''accessToken'' (heap s) (heap s')" and "trace s' = trace s @ [ev]"
    and "bearer_only tok ev" and "truthy tok"
  shows "tok_rel a tok s s'"
  using assms keeps_val [of "''accessToken''" "heap s" "heap s'" a]
  by (auto simp add: tok_rel_def extends_def)

lemma priv_createFolder_tok:
  assumes run: "priv_createFolder E s name tok = (r, s')" and tok: "truthy tok"
  shows "tok_rel a tok s s'"
proof -
  let ?h1 = "heap s @ [Obj [(''name'', name),
      (''mimeType'', VStr ''application/vnd.google-apps.folder'')]]"
  show ?thesis
  proof (cases "JSON_stringify ?h1 (VRef (length (heap s)))")
    case (Inl e)
    with run have "s' = s\<lparr>heap := ?h1\<rparr>"
      by (simp add: priv_createFolder_def alloc_def)
    then show ?thesis using tok by (intro tok_rel_heap) (simp_all add: keeps_append)
  next
    case (Inr b)
    define rq where "rq = \<lparr>req_method = ''POST'',
        req_url = VStr ''https://content.googleapis.com/drive/v3/files?alt=json'',
        req_bearer = tok, req_headers = [(''content-type'', VStr ''application/json'')],
        req_body = Some b\<rparr>"
    define s1 where "s1 = emit (s\<lparr>heap := ?h1\<rparr>) (Http rq)"
    have s1: "keeps ''accessToken'' (heap s) (heap s1)" "trace s1 = trace s @ [Http rq]"
      by (simp_all add: s1_def emit_def keeps_append)
    have "keeps ''accessToken'' (heap s1) (heap s') \<and> trace s' = trace s1"
    proof (cases "net_request E (trace s) rq")
      case (NetError e)
      with run Inr have "s' = s1"
        by (simp add: priv_createFolder_def alloc_def rq_def s1_def Let_def)
      then show ?thesis by (simp add: keeps_refl)
    next
      case (Response resp)
      obtain v s2 where cb: "checked_body E s1 resp = (v, s2)"
        by (cases "checked_body E s1 resp")
      with run Inr Response have "s' = s2"
        by (auto simp add: priv_createFolder_def alloc_def rq_def s1_def Let_def
            split: sum.splits)
      with checked_body_frame [OF cb] show ?thesis by simp
    qed
    with s1 have "keeps ''accessToken'' (heap s) (heap s')" "trace s' = trace s @ [Http rq]"
      by (auto intro: keeps_trans)
    then show ?thesis using tok by (intro tok_rel_emit [where ev = "Http rq"]) (simp_all add: rq_def)
  qed
qed

lemma createFolder_tok:
  assumes run: "createFolder E s name a = (r, s')" and a: "truthy a" and tok: "truthy tok"
  shows "tok_rel a tok s s'"
proof (cases "jsprop (heap s) a ''accessToken'' = tok")
  case False
  then show ?thesis by (simp add: tok_rel_def)
next
  case True
  with a tok have "auth E s a = (Inr a, s)" by (simp add: auth_token)
  moreover have "\<not> nullish a" using a by (cases a) simp_all
  ultimately have "priv_createFolder E s name tok = (r, s')"
    using run True by (simp add: createFolder_def get_prop_def)
  then show ?thesis using tok by (rule priv_createFolder_tok)
qed

lemma cache_push_frame:
  assumes "cache_push s p = (r, s')" and "k \<noteq> ''length''"
  shows "keeps k (heap s) (heap s') \<and> trace s' = trace s"
proof -
  define s1 where "s1 = (if \<not> truthy (cachedFolders s)
      then (case alloc (heap s) (Arr [] []) of (h1, c) \<Rightarrow> s\<lparr>heap := h1, cachedFolders := c\<rparr>)
      else s)"
  have s1: "keeps k (heap s) (heap s1)" "trace s1 = trace s"
    by (simp_all add: s1_def alloc_def keeps_append keeps_refl)
  have "keeps k (heap s1) (heap s') \<and> trace s' = trace s1"
    using assms keeps_push [of "heap s1" "cachedFolders s1" p _ k]
    by (auto simp add: cache_push_def s1_def [symmetric] Let_def keeps_refl split: sum.splits)
  with s1 show ?thesis by (auto intro: keeps_trans)
qed

lemma create_parent_tok:
  assumes run: "create_parent E s p a result = (r, s')" and a: "truthy a" and tok: "truthy tok"
  shows "tok_rel a tok s s'"
proof -
  obtain r1 s1 where cf: "createFolder E s (jsprop (heap s) p ''name'') a = (r1, s1)"
    by (cases "createFolder E s (jsprop (heap s) p ''name'') a")
  have t1: "tok_rel a tok s s1" using cf a tok by (rule createFolder_tok)
  have "tok_rel a tok s1 s'"
  proof (cases r1)
    case (Inl e)
    with run cf show ?thesis by (simp add: create_parent_def tok_rel_refl)
  next
    case (Inr fid)
    show ?thesis
    proof (cases "set_prop (heap s1) p ''id'' fid")
      case (Inl e)
      with run cf Inr show ?thesis by (simp add: create_parent_def tok_rel_refl)
    next
      case h2: (Inr h2)
      have k2: "keeps ''accessToken'' (heap s1) h2"
        using h2 by (rule keeps_set_prop) simp
      show ?thesis
      proof (cases "array_push h2 result p")
        case (Inl e)
        with run cf Inr h2 have "s' = s1\<lparr>heap := h2\<rparr>" by (simp add: create_parent_def)
        with k2 tok show ?thesis by (intro tok_rel_heap) simp_all
      next
        case h3: (Inr h3)
        have k3: "keeps ''accessToken'' h2 h3"
          using h3 by (rule keeps_push) simp
        from run cf Inr h2 h3 have cp: "cache_push (s1\<lparr>heap := h3\<rparr>) p = (r, s')"
          by (simp add: create_parent_def)
        from cache_push_frame [OF cp, of "''accessToken''"]
        have "keeps ''accessToken'' h3 (heap s')" "trace s' = trace s1" by simp_all
        with k2 k3 have "keeps ''accessToken'' (heap s1) (heap s')"
          by (blast intro: keeps_trans)
        with \<open>trace s' = trace s1\<close> tok show ?thesis by (intro tok_rel_heap)
      qed
    qed
  qed
  with t1 show ?thesis by (rule tok_rel_trans)
qed

lemma priv_createParents_tok:
  assumes run: "priv_createParents E s parents a result = Some (r, s')"
    and a: "truthy a" and tok: "truthy tok"
  shows "tok_rel a tok s s'"
proof (rule priv_createParents_rel [OF run, where R = "tok_rel a tok"])
  show "tok_rel a tok s s" for s by (rule tok_rel_refl)
  show "tok_rel a tok s s2" if "tok_rel a tok s s1" "tok_rel a tok s1 s2" for s s1 s2
    using that by (rule tok_rel_trans)
  show "tok_rel a tok s (s\<lparr>heap := h1\<rparr>)" if "array_shift (heap s) parents = Inr (p, h1)"
    for s p h1
    using keeps_shift [OF that, of "''accessToken''"] tok by (intro tok_rel_heap) simp_all
  show "tok_rel a tok s (s\<lparr>heap := h2\<rparr>)" if "array_push (heap s) result p = Inr h2"
    for s p h2
    using keeps_push [OF that, of "''accessToken''"] tok by (intro tok_rel_heap) simp_all
  show "tok_rel a tok s s1" if "create_parent E s p a result = (r, s1)" for s p r s1
    using that a tok by (rule create_parent_tok)
qed


lemma normalize_items_keeps:
  assumes "normalize_items h r items = Inr h'" and "k \<noteq> ''length''"
  shows "keeps k h h'"
  using assms
proof (induction items arbitrary: h)
  case Nil
  then show ?case by (simp add: keeps_refl)
next
  case (Cons item items)
  have push_step: "keeps k h0 h'"
    if "array_push h0 r v = Inr h1" "normalize_items h1 r items = Inr h'" for h0 h1 v
    using keeps_push [OF that(1) Cons.prems(2)] Cons.IH [OF that(2) Cons.prems(2)]
    by (rule keeps_trans)
  show ?case
  proof (cases item)
    case (VStr x)
    let ?ob = "Obj (if toLowerCase x = ''my drive'' then [(''id'', VStr ''root'')]
        else [(''name'', VStr x)])"
    from Cons.prems(1) VStr obtain h1
      where "array_push (h @ [?ob]) r (VRef (length h)) = Inr h1"
        and "normalize_items h1 r items = Inr h'"
      by (auto simp add: alloc_def split: sum.splits)
    then have "keeps k (h @ [?ob]) h'" by (rule push_step)
    with keeps_append show ?thesis by (rule keeps_trans)
  next
    case VUndefined
    with Cons.prems show ?thesis by simp
  next
    case VNull
    with Cons.prems show ?thesis by simp
  next
    case (VBool b)
    with Cons.prems Cons.IH push_step show ?thesis
      by (auto split: if_splits sum.splits)
  next
    case (VNum n)
    with Cons.prems Cons.IH push_step show ?thesis
      by (auto split: if_splits sum.splits)
  next
    case (VRef x)
    with Cons.prems Cons.IH push_step show ?thesis
      by (auto split: if_splits sum.splits)
  qed
qed

lemma priv_normalizeParents_keeps:
  assumes "priv_normalizeParents h parents = Inr (h', normal)" and "k \<noteq> ''length''"
  shows "keeps k h h'"
proof -
  from assms(1) obtain items where
    "normalize_items (h @ [Arr [] []]) (VRef (length h)) items = Inr h'"
    by (auto simp add: priv_normalizeParents_def alloc_def split: sum.splits)
  then have "keeps k (h @ [Arr [] []]) h'" using assms(2) by (rule normalize_items_keeps)
  with keeps_append show ?thesis by (rule keeps_trans)
qed

lemma createParents_tok:
  assumes run: "createParents E s parents a = Some (r, s')"
    and a: "truthy a" and tok: "truthy tok"
  shows "tok_rel a tok s s'"
proof (cases "jsprop (heap s) a ''accessToken'' = tok")
  case False
  then show ?thesis by (simp add: tok_rel_def)
next
  case inv: True
  show ?thesis
  proof (cases "\<not> truthy parents \<or> \<not> truthy (jsprop (heap s) parents ''length'')")
    case True
    with run show ?thesis by (auto simp add: createParents_def tok_rel_refl)
  next
    case nonempty: False
    show ?thesis
    proof (cases "priv_normalizeParents (heap s) parents")
      case (Inl e)
      with run nonempty show ?thesis by (auto simp add: createParents_def tok_rel_refl)
    next
      case (Inr hn)
      obtain h1 normal where hn: "hn = (h1, normal)" by (cases hn)
      have k1: "keeps ''accessToken'' (heap s) h1"
        using Inr hn by (intro priv_normalizeParents_keeps [of _ parents _ normal]) simp_all
      show ?thesis
      proof (cases "truthy (jsprop h1 normal ''length'')")
        case False
        with run nonempty Inr hn have "s' = s\<lparr>heap := h1 @ [Arr [] []]\<rparr>"
          by (auto simp add: createParents_def alloc_def)
        moreover have "keeps ''accessToken'' (heap s) (h1 @ [Arr [] []])"
          using k1 keeps_append by (rule keeps_trans)
        ultimately show ?thesis using tok by (intro tok_rel_heap) simp_all
      next
        case True
        have tok1: "jsprop h1 a ''accessToken'' = tok"
          using keeps_val [OF k1, of a] inv tok by simp
        then have au: "auth E (s\<lparr>heap := h1\<rparr>) a = (Inr a, s\<lparr>heap := h1\<rparr>)"
          using a tok by (simp add: auth_token)
        from run nonempty Inr hn True au
        have rec: "priv_createParents E (s\<lparr>heap := h1 @ [Arr [] []]\<rparr>) normal a
            (VRef (length h1)) = Some (r, s')"
          by (auto simp add: createParents_def alloc_def)
        have "tok_rel a tok s (s\<lparr>heap := h1 @ [Arr [] []]\<rparr>)"
          using keeps_trans [OF k1 keeps_append] tok by (intro tok_rel_heap) simp_all
        moreover have "tok_rel a tok (s\<lparr>heap := h1 @ [Arr [] []]\<rparr>) s'"
          using rec a tok by (rule priv_createParents_tok)
        ultimately show ?thesis by (rule tok_rel_trans)
      qed
    qed
  qed
qed


lemma priv_initializeSession_shape:
  assumes run: "priv_initializeSession E s token meta fileId = (r, s')"
  shows "heap s' = heap s \<and> cachedFolders s' = cachedFolders s \<and>
     ((trace s' = trace s \<and> (\<exists>e. r = Inl e)
         \<and> (if truthy meta then JSON_stringify (heap s) meta else Inr VUndefined) = Inl (projl r))
      \<or> (\<exists>jtext. (if truthy meta then JSON_stringify (heap s) meta else Inr VUndefined) = Inr jtext
            \<and> trace s' = trace s @ [Http (session_request token fileId jtext)]))"
proof (cases "if truthy meta then JSON_stringify (heap s) meta else Inr VUndefined")
  case (Inl e)
  with run show ?thesis
    by (auto simp add: priv_initializeSession_def Let_def split: prod.splits if_splits)
next
  case (Inr jtext)
  have "trace s' = trace s @ [Http (session_request token fileId jtext)]
      \<and> heap s' = heap s \<and> cachedFolders s' = cachedFolders s"
    using run Inr
    by (cases fileId)
      (auto simp add: priv_initializeSession_def session_request_def emit_def Let_def
        split: http_outcome.splits if_splits)
  with Inr show ?thesis by simp
qed

lemma priv_upload_shape:
  assumes run: "priv_upload E s token url body1 mimeType = (r, s')"
  shows "keeps k (heap s) (heap s') \<and> cachedFolders s' = cachedFolders s
     \<and> trace s' = trace s @ [Http (upload_request token url body1 mimeType)]"
proof (cases "net_request E (trace s) (upload_request token url body1 mimeType)")
  case (NetError e)
  with run show ?thesis
    by (auto simp add: priv_upload_def upload_request_def emit_def keeps_refl)
next
  case (Response resp)
  with run have "parse_body E (emit s (Http (upload_request token url body1 mimeType))) resp
      = (r, s')"
    by (simp add: priv_upload_def upload_request_def)
  from parse_body_frame [OF this, of k] show ?thesis by (simp add: emit_def)
qed


lemma send_file_tok:
  assumes run: "send_file E s tok resource fileId media = (r, s')" and tok: "truthy tok"
  shows "tok_rel a tok s s'"
proof -
  obtain r1 s1 where init: "priv_initializeSession E s tok resource fileId = (r1, s1)"
    by (cases "priv_initializeSession E s tok resource fileId")
  from priv_initializeSession_shape [OF init]
  have h1: "heap s1 = heap s"
    and t1: "trace s1 = trace s \<or> (\<exists>jt. trace s1 = trace s @ [Http (session_request tok fileId jt)])"
    by auto
  have r1: "tok_rel a tok s s1"
    using t1
  proof
    assume "trace s1 = trace s"
    with h1 tok show ?thesis by (intro tok_rel_heap) (simp_all add: keeps_refl)
  next
    assume "\<exists>jt. trace s1 = trace s @ [Http (session_request tok fileId jt)]"
    then obtain jt where "trace s1 = trace s @ [Http (session_request tok fileId jt)]" ..
    with h1 tok show ?thesis
      by (intro tok_rel_emit [where ev = "Http (session_request tok fileId jt)"])
        (simp_all add: keeps_refl session_request_def)
  qed
  have "tok_rel a tok s1 s'"
  proof (cases r1)
    case (Inl e)
    with run init show ?thesis by (simp add: send_file_def tok_rel_refl)
  next
    case (Inr url)
    show ?thesis
    proof (cases "get_prop (heap s1) media ''body''")
      case (Inl e)
      with run init Inr show ?thesis by (simp add: send_file_def tok_rel_refl)
    next
      case b: (Inr body1)
      with run init Inr have "priv_upload E s1 tok url body1 (jsprop (heap s1) media ''mimeType'')
          = (r, s')"
        by (simp add: send_file_def)
      from priv_upload_shape [OF this, of "''accessToken''"] tok show ?thesis
        by (intro tok_rel_emit [where ev = "Http (upload_request tok url body1
              (jsprop (heap s1) media ''mimeType''))"])
          (simp_all add: upload_request_def)
    qed
  qed
  with r1 show ?thesis by (rule tok_rel_trans)
qed

lemma resolve_parents_tok:
  assumes run: "resolve_parents E s resource a = Some (r, s')"
    and a: "truthy a" and tok: "truthy tok"
  shows "tok_rel a tok s s'"
proof (cases "truthy (jsprop (heap s) resource ''parents'')
    \<and> truthy (jsprop (heap s) (jsprop (heap s) resource ''parents'') ''length'')")
  case False
  with run show ?thesis by (auto simp add: resolve_parents_def Let_def tok_rel_refl)
next
  case True
  let ?rp = "jsprop (heap s) resource ''parents''"
  from run True obtain r1 s1 where cp: "createParents E s ?rp a = Some (r1, s1)"
    by (cases "createParents E s ?rp a") (auto simp add: resolve_parents_def Let_def)
  have t1: "tok_rel a tok s s1" using cp a tok by (rule createParents_tok)
  have "tok_rel a tok s1 s'"
  proof (cases r1)
    case (Inl e)
    with run True cp show ?thesis by (simp add: resolve_parents_def Let_def tok_rel_refl)
  next
    case (Inr created)
    show ?thesis
    proof (cases "\<not> truthy created \<or> \<not> truthy (jsprop (heap s1) created ''length'')")
      case True
      with run \<open>truthy ?rp \<and> truthy (jsprop (heap s) ?rp ''length'')\<close> cp Inr
      have "s' = s1\<lparr>heap := delete_prop (heap s1) resource ''parents''\<rparr>"
        by (auto simp add: resolve_parents_def Let_def)
      then show ?thesis using tok
        by (intro tok_rel_heap) (simp_all add: keeps_delete_prop)
    next
      case False
      with run \<open>truthy ?rp \<and> truthy (jsprop (heap s) ?rp ''length'')\<close> cp Inr
      have "s' = s1 \<or> (\<exists>ids. s' = s1\<lparr>heap := heap s1 @ [Arr ids []]\<rparr>
          \<or> (\<exists>h3. set_prop (heap s1 @ [Arr ids []]) resource ''parents''
                  (VRef (length (heap s1))) = Inr h3 \<and> s' = s1\<lparr>heap := h3\<rparr>))"
        by (auto simp add: resolve_parents_def Let_def alloc_def split: sum.splits)
      then show ?thesis
      proof (elim disjE exE conjE)
        assume "s' = s1"
        then show ?thesis by (simp add: tok_rel_refl)
      next
        fix ids assume "s' = s1\<lparr>heap := heap s1 @ [Arr ids []]\<rparr>"
        then show ?thesis using tok by (intro tok_rel_heap) (simp_all add: keeps_append)
      next
        fix ids h3
        assume sp: "set_prop (heap s1 @ [Arr ids []]) resource ''parents''
            (VRef (length (heap s1))) = Inr h3" and s': "s' = s1\<lparr>heap := h3\<rparr>"
        have "keeps ''accessToken'' (heap s1 @ [Arr ids []]) h3"
          using sp by (rule keeps_set_prop) simp
        with keeps_append have "keeps ''accessToken'' (heap s1) h3" by (rule keeps_trans)
        with s' tok show ?thesis by (intro tok_rel_heap) simp_all
      qed
    qed
  qed
  with t1 show ?thesis by (rule tok_rel_trans)
qed

lemma default_mimeType_keeps:
  assumes "default_mimeType i h resource = Inr h'" and "k \<noteq> ''mimeType''"
  shows "keeps k h h'"
  using assms keeps_set_prop [of h resource "''mimeType''" "mime i" h' k]
  by (auto simp add: default_mimeType_def keeps_refl split: if_splits)

lemma not_nullish: "truthy a \<Longrightarrow> \<not> nullish a"
  by (cases a) simp_all

lemma create_tok:
  assumes run: "create i E s resource media a = Some (r, s')"
    and a: "truthy a" and tok: "truthy tok"
  shows "tok_rel a tok s s'"
proof (cases "jsprop (heap s) a ''accessToken'' = tok")
  case False
  then show ?thesis by (simp add: tok_rel_def)
next
  case inv: True
  show ?thesis
  proof (cases "default_mimeType i (heap s) resource")
    case (Inl e)
    with run show ?thesis by (simp add: create_def tok_rel_refl)
  next
    case (Inr h1)
    have k1: "keeps ''accessToken'' (heap s) h1"
      using Inr by (rule default_mimeType_keeps) simp
    have inv1: "jsprop h1 a ''accessToken'' = tok"
      using keeps_val [OF k1, of a] inv tok by simp
    have t0: "tok_rel a tok s (s\<lparr>heap := h1\<rparr>)"
      using k1 tok by (intro tok_rel_heap) simp_all
    have au: "auth E (s\<lparr>heap := h1\<rparr>) a = (Inr a, s\<lparr>heap := h1\<rparr>)"
      using inv1 a tok by (simp add: auth_token)
    have gp: "get_prop h1 a ''accessToken'' = Inr tok"
      using a inv1 by (simp add: get_prop_def not_nullish)
    show ?thesis
    proof (cases "resolve_parents E (s\<lparr>heap := h1\<rparr>) resource a")
      case None
      with run Inr au gp show ?thesis by (simp add: create_def)
    next
      case (Some rs2)
      obtain r2 s2 where rs2: "rs2 = (r2, s2)" by (cases rs2)
      have t1: "tok_rel a tok (s\<lparr>heap := h1\<rparr>) s2"
        using Some rs2 a tok by (intro resolve_parents_tok [where r = r2]) simp_all
      have "tok_rel a tok s2 s'"
      proof (cases r2)
        case (Inl e)
        with run Inr au gp Some rs2 show ?thesis by (simp add: create_def tok_rel_refl)
      next
        case created: (Inr created)
        obtain r3 s3 where sf: "send_file E s2 tok resource None media = (r3, s3)"
          by (cases "send_file E s2 tok resource None media")
        have t2: "tok_rel a tok s2 s3" using sf tok by (rule send_file_tok)
        have "tok_rel a tok s3 s'"
        proof (cases r3)
          case (Inl e)
          with run Inr au gp Some rs2 created sf show ?thesis
            by (simp add: create_def tok_rel_refl)
        next
          case res: (Inr result)
          show ?thesis
          proof (cases "truthy created")
            case False
            with run Inr au gp Some rs2 created sf res show ?thesis
              by (simp add: create_def tok_rel_refl)
          next
            case True
            show ?thesis
            proof (cases "set_prop (heap s3) result ''parents'' created")
              case (Inl e)
              with run Inr au gp Some rs2 created sf res True show ?thesis
                by (simp add: create_def tok_rel_refl)
            next
              case h4: (Inr h4)
              with run Inr au gp Some rs2 created sf res True
              have "s' = s3\<lparr>heap := h4\<rparr>" by (simp add: create_def)
              moreover have "keeps ''accessToken'' (heap s3) h4"
                using h4 by (rule keeps_set_prop) simp
              ultimately show ?thesis using tok by (intro tok_rel_heap) simp_all
            qed
          qed
        qed
        with t2 show ?thesis by (rule tok_rel_trans)
      qed
      with t0 t1 show ?thesis by (blast intro: tok_rel_trans)
    qed
  qed
qed

lemma update_tok:
  assumes run: "update i E s fileId resource media a = (r, s')"
    and a: "truthy a" and tok: "truthy tok"
  shows "tok_rel a tok s s'"
proof (cases "jsprop (heap s) a ''accessToken'' = tok")
  case False
  then show ?thesis by (simp add: tok_rel_def)
next
  case inv: True
  show ?thesis
  proof (cases "default_mimeType i (heap s) resource")
    case (Inl e)
    with run show ?thesis by (simp add: update_def tok_rel_refl)
  next
    case (Inr h1)
    have k1: "keeps ''accessToken'' (heap s) h1"
      using Inr by (rule default_mimeType_keeps) simp
    have inv1: "jsprop h1 a ''accessToken'' = tok"
      using keeps_val [OF k1, of a] inv tok by simp
    have t0: "tok_rel a tok s (s\<lparr>heap := h1\<rparr>)"
      using k1 tok by (intro tok_rel_heap) simp_all
    have au: "auth E (s\<lparr>heap := h1\<rparr>) a = (Inr a, s\<lparr>heap := h1\<rparr>)"
      using inv1 a tok by (simp add: auth_token)
    have gp: "get_prop h1 a ''accessToken'' = Inr tok"
      using a inv1 by (simp add: get_prop_def not_nullish)
    from run Inr au gp have "send_file E (s\<lparr>heap := h1\<rparr>) tok resource fileId media = (r, s')"
      by (simp add: update_def)
    then have "tok_rel a tok (s\<lparr>heap := h1\<rparr>) s'" using tok by (rule send_file_tok)
    with t0 show ?thesis by (rule tok_rel_trans)
  qed
qed

section \<open>Facts about the normalization of parents\<close>

lemma deref_take: "x < n \<Longrightarrow> deref (take n h) x = deref h x"
  by (simp add: deref_def)

lemma jsprop_take:
  assumes "take n hc = h0" and "\<And>x. item = VRef x \<Longrightarrow> x < n"
  shows "jsprop hc item k = jsprop h0 item k"
proof (cases item)
  case (VRef y)
  then have "deref (take n hc) y = deref hc y" using assms(2) by (intro deref_take)
  with VRef assms(1) show ?thesis by auto
qed simp_all

lemma normal_of_frame:
  assumes "normal_of hc n item v" and "length hc \<le> length hc'"
    and "\<forall>x. n < x \<and> x < length hc \<longrightarrow> hc' ! x = hc ! x"
  shows "normal_of hc' n item v"
  using assms by (cases item; cases v) auto

lemma normalize_items_result:
  assumes "take n hc = h0" and "n < length hc" and "hc ! n = Arr acc ps"
    and "proper_items h0 items" and "length h0 = n"
  shows "\<exists>hc' vs. normalize_items hc (VRef n) items = Inr hc'
      \<and> take n hc' = h0 \<and> length hc \<le> length hc' \<and> hc' ! n = Arr (acc @ vs) ps
      \<and> (\<forall>x. n < x \<and> x < length hc \<longrightarrow> hc' ! x = hc ! x)
      \<and> list_all2 (normal_of hc' n) (filter (kept h0) items) vs"
  using assms
proof (induction items arbitrary: hc acc)
  case Nil
  then show ?case by simp
next
  case (Cons item items)
  have rest: "proper_items h0 items"
    using Cons.prems(4) by (simp add: proper_items_def)
  have item: "\<not> nullish item" "item = VRef x \<longrightarrow> x < n" for x
    using Cons.prems(4,5) by (auto simp add: proper_items_def)
  have push: "array_push h (VRef n) v = Inr (h[n := Arr (acc @ [v]) ps])"
    if "n < length h" "h ! n = Arr acc ps" for h v
    using that by (simp add: deref_def)
  show ?case
  proof (cases item)
    case (VStr s)
    let ?h1 = "hc @ [entry_of s]"
    let ?h2 = "?h1[n := Arr (acc @ [VRef (length hc)]) ps]"
    have h1: "n < length ?h1" "?h1 ! n = Arr acc ps"
      using Cons.prems(2,3) by (simp_all add: nth_append)
    have step: "normalize_items hc (VRef n) (item # items) = normalize_items ?h2 (VRef n) items"
      using VStr push [OF h1] by (simp add: alloc_def entry_of_def)
    have pre: "take n ?h2 = h0" "n < length ?h2" "?h2 ! n = Arr (acc @ [VRef (length hc)]) ps"
      using Cons.prems(1,2) by (simp_all add: take_update_cancel)
    from Cons.IH [OF pre rest Cons.prems(5)] obtain hc' vs where
      run: "normalize_items ?h2 (VRef n) items = Inr hc'"
      and fr: "take n hc' = h0" "length ?h2 \<le> length hc'"
        "hc' ! n = Arr ((acc @ [VRef (length hc)]) @ vs) ps"
        "\<forall>x. n < x \<and> x < length ?h2 \<longrightarrow> hc' ! x = ?h2 ! x"
      and rel: "list_all2 (normal_of hc' n) (filter (kept h0) items) vs"
      by blast
    have new: "hc' ! length hc = entry_of s"
      using fr(4) Cons.prems(2) by (simp add: nth_append)
    have "normal_of hc' n item (VRef (length hc))"
      using VStr new fr(2) Cons.prems(2) by simp
    moreover have "\<forall>x. n < x \<and> x < length hc \<longrightarrow> hc' ! x = hc ! x"
      using fr(4) by (simp add: nth_append)
    ultimately show ?thesis
      using step run fr rel VStr
      by (intro exI [of _ hc'] exI [of _ "VRef (length hc) # vs"]) simp
  next
    case other: (VRef x)
    have same: "jsprop hc item k = jsprop h0 item k" for k
      using Cons.prems(1) item(2) by (intro jsprop_take [where n = n]) auto
    show ?thesis
    proof (cases "kept h0 item")
      case False
      then have step: "normalize_items hc (VRef n) (item # items) = normalize_items hc (VRef n) items"
        using other same [unfolded other] by simp
      from Cons.IH [OF Cons.prems(1,2,3) rest Cons.prems(5)] step False show ?thesis
        by simp
    next
      case True
      let ?h2 = "hc[n := Arr (acc @ [item]) ps]"
      have step: "normalize_items hc (VRef n) (item # items) = normalize_items ?h2 (VRef n) items"
        using other True same [unfolded other] push [OF Cons.prems(2,3), of item]
        by auto
      have pre: "take n ?h2 = h0" "n < length ?h2" "?h2 ! n = Arr (acc @ [item]) ps"
        using Cons.prems(1,2) by (simp_all add: take_update_cancel)
      from Cons.IH [OF pre rest Cons.prems(5)] obtain hc' vs where
        run: "normalize_items ?h2 (VRef n) items = Inr hc'"
        and fr: "take n hc' = h0" "length ?h2 \<le> length hc'"
          "hc' ! n = Arr ((acc @ [item]) @ vs) ps"
          "\<forall>x. n < x \<and> x < length ?h2 \<longrightarrow> hc' ! x = ?h2 ! x"
        and rel: "list_all2 (normal_of hc' n) (filter (kept h0) items) vs"
        by blast
      have "normal_of hc' n item item" using other by simp
      moreover have "\<forall>x. n < x \<and> x < length hc \<longrightarrow> hc' ! x = hc ! x"
        using fr(4) by simp
      ultimately show ?thesis
        using step run fr rel True
        by (intro exI [of _ hc'] exI [of _ "item # vs"]) simp
    qed
  next
    case VUndefined
    with item(1) show ?thesis by simp
  next
    case VNull
    with item(1) show ?thesis by simp
  next
    case (VBool b)
    then have "normalize_items hc (VRef n) (item # items) = normalize_items hc (VRef n) items"
      and "\<not> kept h0 item" by simp_all
    with Cons.IH [OF Cons.prems(1,2,3) rest Cons.prems(5)] show ?thesis by simp
  next
    case (VNum i)
    then have "normalize_items hc (VRef n) (item # items) = normalize_items hc (VRef n) items"
      and "\<not> kept h0 item" by simp_all
    with Cons.IH [OF Cons.prems(1,2,3) rest Cons.prems(5)] show ?thesis by simp
  qed
qed

lemma priv_normalizeParents_normal:
  assumes arr: "array_items h parents = Inr items" and ok: "proper_items h items"
  shows "\<exists>h' vs. priv_normalizeParents h parents = Inr (h', VRef (length h))
      \<and> take (length h) h' = h
      \<and> array_items h' (VRef (length h)) = Inr vs
      \<and> list_all2 (normal_of h' (length h)) (filter (kept h) items) vs"
proof -
  let ?n = "length h" and ?h1 = "h @ [Arr [] []]"
  from arr obtain p ps where p: "parents = VRef p" "deref h p = Arr items ps"
    by (cases parents) (auto split: obj.splits)
  then have "p < length h"
    by (cases "p < length h") (simp_all add: deref_def)
  with p have arr1: "array_items ?h1 parents = Inr items"
    by (simp add: deref_old)
  have "take ?n ?h1 = h" "?n < length ?h1" "?h1 ! ?n = Arr [] []"
    by simp_all
  from normalize_items_result [OF this ok refl] obtain h' vs where
    run: "normalize_items ?h1 (VRef ?n) items = Inr h'"
    and fr: "take ?n h' = h" "length ?h1 \<le> length h'" "h' ! ?n = Arr ([] @ vs) []"
    and rel: "list_all2 (normal_of h' ?n) (filter (kept h) items) vs"
    by blast
  have "priv_normalizeParents h parents = Inr (h', VRef ?n)"
    using arr1 run by (simp add: priv_normalizeParents_def alloc_def)
  moreover have "array_items h' (VRef ?n) = Inr vs"
    using fr(2,3) by (simp add: deref_def)
  ultimately show ?thesis using fr(1) rel by blast
qed

section \<open>Facts about the folder listing\<close>

lemma listAppFolders_shape:
  assumes "listAppFolders E s i = (r, s')"
  shows "trace s' = trace s @ [GetAuthToken i]
     \<or> (\<exists>rq. trace s' = trace s @ [GetAuthToken i, Http rq])"
proof -
  obtain r1 s1 where st: "settle_auth (emit s (GetAuthToken i)) (getAuthToken E (trace s) i) = (r1, s1)"
    by (cases "settle_auth (emit s (GetAuthToken i)) (getAuthToken E (trace s) i)")
  from settle_auth_frame [OF st, of "''id''"] have t1: "trace s1 = trace s @ [GetAuthToken i]"
    by (simp add: emit_def)
  show ?thesis
  proof (cases r1)
    case (Inl e)
    with assms st t1 show ?thesis by (simp add: listAppFolders_def)
  next
    case (Inr a)
    show ?thesis
    proof (cases "truthy a")
      case False
      with assms st t1 Inr show ?thesis by (simp add: listAppFolders_def)
    next
      case True
      with assms st Inr have run: "priv_listAppFolders E s1 a = (r, s')"
        by (simp add: listAppFolders_def)
      have "\<exists>rq. trace s' = trace s1 @ [Http rq]"
      proof (cases "net_request E (trace s1) \<lparr>req_method = ''GET'',
                req_url = VStr (''https://www.googleapis.com/drive/v3/files?''
                  @ ''q=trashed%20%3D%20false%20and%20mimeType%3D%22application''
                  @ ''%2Fvnd.google-apps.folder%22&orderBy=modifiedTime%20desc&''),
                req_bearer = jsprop (heap s1) a ''accessToken'',
                req_headers = [(''accept'', VStr ''application/json'')],
                req_body = None\<rparr>")
        case (NetError e)
        with run show ?thesis by (auto simp add: priv_listAppFolders_def emit_def Let_def)
      next
        case (Response resp)
        with run obtain s2 where "checked_body E s2 resp = (r, s')"
          and "\<exists>rq. trace s2 = trace s1 @ [Http rq]"
          by (auto simp add: priv_listAppFolders_def emit_def Let_def)
        with checked_body_frame [of E s2 resp r s' "''id''"] show ?thesis by auto
      qed
      with t1 show ?thesis by auto
    qed
  qed
qed


lemma handler_cached:
  "truthy (cachedFolders s) \<Longrightarrow>
     listAppFoldersHandler E s rid opts = emit s (SendResult rid (cachedFolders s))"
  by (simp add: listAppFoldersHandler_def)

lemma handler_success_caches:
  assumes run: "listAppFoldersHandler E s rid opts = s1"
    and ok: "trace s1 = trace s @ evs @ [SendResult rid folders]"
  shows "cachedFolders s1 = folders \<and> truthy folders"
proof (cases "truthy (cachedFolders s)")
  case True
  with run have "s1 = emit s (SendResult rid (cachedFolders s))" by (simp add: handler_cached)
  with ok True show ?thesis by (simp add: emit_def)
next
  case False
  define i where "i = (if \<not> truthy opts then VBool True
      else if jsprop (heap s) opts ''interactive'' = VUndefined then VBool True
      else jsprop (heap s) opts ''interactive'')"
  obtain r s' where la: "listAppFolders E s i = (r, s')"
    by (cases "listAppFolders E s i")
  from listAppFolders_shape [OF la] obtain evs1 where
    t': "trace s' = trace s @ evs1" and nosend: "evs1 \<noteq> []" "\<forall>v. last evs1 \<noteq> SendResult rid v"
    by auto
  have last1: "last (trace s1) = SendResult rid folders" using ok by simp
  show ?thesis
  proof (cases r)
    case (Inl e)
    with run False la have "s1 = (if e = Unsettled then s' else emit s' (SendError rid e))"
      by (simp add: listAppFoldersHandler_def i_def [symmetric])
    with last1 t' nosend show ?thesis
      by (auto simp add: emit_def split: if_splits)
  next
    case (Inr result)
    let ?h2 = "heap s' @ [Arr [] []]" and ?f = "VRef (length (heap s'))"
    from run False la Inr
    have "(\<exists>e s2. s1 = emit s2 (SendError rid e))
        \<or> (\<exists>h3. s1 = emit (s'\<lparr>heap := h3, cachedFolders := ?f\<rparr>) (SendResult rid ?f))"
      by (auto simp add: listAppFoldersHandler_def i_def [symmetric] alloc_def
          split: sum.splits if_splits)
    with last1 show ?thesis by (auto simp add: emit_def)
  qed
qed

section \<open>Facts about parents that have an id\<close>

lemma settle_auth_append:
  assumes "settle_auth s r = (res, s')"
  shows "\<exists>new. heap s' = heap s @ new"
  using assms
  by (auto simp add: settle_auth_def split: sum.splits option.splits prod.splits
      dest!: alloc_json_append(1))

lemma auth_frame:
  assumes "auth E s a = (res, s')"
  shows "(\<exists>new. heap s' = heap s @ new) \<and> cachedFolders s' = cachedFolders s
     \<and> extends not_http s s'"
proof (cases "truthy a \<and> truthy (jsprop (heap s) a ''accessToken'')")
  case True
  with assms have "s' = s" by (simp add: auth_def)
  then show ?thesis by (simp add: extends_refl)
next
  case False
  then obtain ev r where st: "settle_auth (emit s ev) r = (res, s')" and ev: "not_http ev"
    using assms by (auto simp add: auth_def split: if_splits)
  from settle_auth_append [OF st] settle_auth_frame [OF st, of "''id''"] ev
  show ?thesis by (auto simp add: emit_def extends_def)
qed

lemma truthy_id_ref:
  assumes "truthy (jsprop h p ''id'')"
  shows "\<exists>x. p = VRef x \<and> x < length h"
proof (cases p)
  case (VRef x)
  with assms truthy_jsprop_valid [of h x "''id''"] show ?thesis by blast
qed (use assms in simp_all)

lemma priv_createParents_ids:
  assumes "n < length (heap s)" and "heap s ! n = Arr items ps"
    and "m < length (heap s)" and "heap s ! m = Arr rs qs" and "n \<noteq> m"
    and "\<forall>p \<in> set items. truthy (jsprop (heap s) p ''id'')"
  shows "priv_createParents E s (VRef n) a (VRef m)
     = Some (Inr (VRef m), s\<lparr>heap := (heap s)[n := Arr [] ps, m := Arr (rs @ items) qs]\<rparr>)"
  using assms
proof (induction items arbitrary: s rs)
  case Nil
  have "(heap s)[n := Arr [] ps, m := Arr rs qs] = heap s"
    using Nil.prems by (metis list_update_id)
  moreover have "array_shift (heap s) (VRef n) = Inr (VUndefined, heap s)"
    using Nil.prems by (simp add: deref_def)
  ultimately show ?case
    by (subst priv_createParents.simps) simp
next
  case (Cons p items)
  let ?h = "heap s"
  let ?h1 = "?h[n := Arr items ps]"
  let ?h2 = "?h1[m := Arr (rs @ [p]) qs]"
  have shift: "array_shift ?h (VRef n) = Inr (p, ?h1)"
    using Cons.prems by (simp add: deref_def)
  have push: "array_push ?h1 (VRef m) p = Inr ?h2"
    using Cons.prems by (simp add: deref_def)
  have k: "keeps ''id'' ?h ?h1" "keeps ''id'' ?h1 ?h2"
    using keeps_shift [OF shift] keeps_push [OF push] by simp_all
  then have k2: "keeps ''id'' ?h ?h2" by (rule keeps_trans)
  have pid: "truthy (jsprop ?h p ''id'')" using Cons.prems by simp
  then have p: "truthy p" by (cases p) simp_all
  have pid1: "truthy (jsprop ?h1 p ''id'')"
    using keeps_val [OF k(1) pid] pid by simp
  have step: "priv_createParents E s (VRef n) a (VRef m)
      = priv_createParents E (s\<lparr>heap := ?h2\<rparr>) (VRef n) a (VRef m)"
    by (subst priv_createParents.simps)
      (simp add: shift push p pid1 del: array_shift.simps array_push.simps jsprop.simps)
  have ids: "\<forall>q \<in> set items. truthy (jsprop ?h2 q ''id'')"
  proof
    fix q assume "q \<in> set items"
    with Cons.prems have "truthy (jsprop ?h q ''id'')" by simp
    with keeps_val [OF k2 this] show "truthy (jsprop ?h2 q ''id'')" by simp
  qed
  have pre: "n < length (heap (s\<lparr>heap := ?h2\<rparr>))" "heap (s\<lparr>heap := ?h2\<rparr>) ! n = Arr items ps"
    "m < length (heap (s\<lparr>heap := ?h2\<rparr>))" "heap (s\<lparr>heap := ?h2\<rparr>) ! m = Arr (rs @ [p]) qs"
    using Cons.prems by simp_all
  have fin: "?h2[n := Arr [] ps, m := Arr ((rs @ [p]) @ items) qs]
      = ?h[n := Arr [] ps, m := Arr (rs @ p # items) qs]"
    using Cons.prems(5) by (simp add: list_update_swap [of n m])
  from Cons.IH [OF pre Cons.prems(5)] ids
  have "priv_createParents E (s\<lparr>heap := ?h2\<rparr>) (VRef n) a (VRef m)
      = Some (Inr (VRef m), s\<lparr>heap := ?h2[n := Arr [] ps, m := Arr ((rs @ [p]) @ items) qs]\<rparr>)"
    by simp
  with step fin show ?case by simp
qed


lemma kept_id: "truthy (jsprop h p ''id'') \<Longrightarrow> kept h p"
  by (cases p) simp_all

lemma normal_of_refs:
  assumes "list_all2 (normal_of h' n) items vs" and "\<forall>p \<in> set items. \<exists>x. p = VRef x"
  shows "vs = items"
  using assms by (induction rule: list_all2_induct) auto

lemma prefix_keeps: "take (length h) h' = h \<Longrightarrow> keeps k h h'"
  by (metis append_take_drop_id keeps_append)

lemma createParents_ids:
  assumes arr: "array_items (heap s) parents = Inr items" and ne: "items \<noteq> []"
    and ids: "\<forall>p \<in> set items. truthy (jsprop (heap s) p ''id'')"
  shows "\<exists>r s'. createParents E s parents a = Some (r, s')
      \<and> extends not_http s s'
      \<and> cachedFolders s' = cachedFolders s
      \<and> take (length (heap s)) (heap s') = heap s
      \<and> (\<forall>rv. r = Inr rv \<longrightarrow> array_items (heap s') rv = Inr items)
      \<and> (truthy a \<and> truthy (jsprop (heap s) a ''accessToken'') \<longrightarrow>
            trace s' = trace s \<and> (\<exists>rv. r = Inr rv))"
proof -
  let ?h = "heap s" and ?n = "length (heap s)"
  have refs: "\<forall>p \<in> set items. \<exists>x. p = VRef x \<and> x < ?n"
    using ids truthy_id_ref by blast
  then have proper: "proper_items ?h items"
    by (auto simp add: proper_items_def)
  have keep: "filter (kept ?h) items = items"
    using ids kept_id by (auto simp add: filter_id_conv)
  from priv_normalizeParents_normal [OF arr proper] keep obtain h1 vs where
    norm: "priv_normalizeParents ?h parents = Inr (h1, VRef ?n)"
    and pre1: "take ?n h1 = ?h"
    and arr1: "array_items h1 (VRef ?n) = Inr vs"
    and rel: "list_all2 (normal_of h1 ?n) items vs"
    by auto
  have vs: "vs = items" using rel refs by (intro normal_of_refs) auto
  from arr1 vs obtain ps where n1: "?n < length h1" "h1 ! ?n = Arr items ps"
    by (cases "?n < length h1") (auto simp add: deref_def split: obj.splits)
  from arr obtain p qs where par: "parents = VRef p" "deref ?h p = Arr items qs"
    by (cases parents) (auto split: obj.splits)
  have nonempty: "truthy parents" "truthy (jsprop ?h parents ''length'')"
    "truthy (jsprop h1 (VRef ?n) ''length'')"
    using par ne n1 by (simp_all add: deref_def)
  obtain ra s2 where au: "auth E (s\<lparr>heap := h1\<rparr>) a = (ra, s2)"
    by (cases "auth E (s\<lparr>heap := h1\<rparr>) a")
  from auth_frame [OF au] obtain new where
    h2: "heap s2 = h1 @ new" and c2: "cachedFolders s2 = cachedFolders s"
    and e2: "extends not_http s s2"
    by (auto simp add: extends_def)
  have pre2: "take ?n (heap s2) = ?h"
    using pre1 n1(1) h2 by simp
  have tok: "ra = Inr a \<and> s2 = s\<lparr>heap := h1\<rparr>"
    if "truthy a \<and> truthy (jsprop ?h a ''accessToken'')"
  proof -
    have "jsprop h1 a ''accessToken'' = jsprop ?h a ''accessToken''"
      using that prefix_keeps [OF pre1] by (intro keeps_val) auto
    with that au show ?thesis by (simp add: auth_token)
  qed
  show ?thesis
  proof (cases ra)
    case (Inl e)
    with norm nonempty au have "createParents E s parents a = Some (Inl e, s2)"
      by (simp add: createParents_def del: jsprop.simps)
    with e2 c2 pre2 tok Inl show ?thesis by auto
  next
    case (Inr info)
    let ?m = "length (heap s2)"
    let ?h3 = "heap s2 @ [Arr [] []]"
    let ?s3 = "s2\<lparr>heap := ?h3\<rparr>"
    let ?hf = "?h3[?n := Arr [] ps, ?m := Arr ([] @ items) []]"
    have run: "createParents E s parents a = priv_createParents E ?s3 (VRef ?n) info (VRef ?m)"
      using norm nonempty au Inr by (simp add: createParents_def alloc_def del: jsprop.simps)
    have nm: "?n < ?m" using n1(1) h2 by simp
    have ids3: "\<forall>q \<in> set items. truthy (jsprop (heap ?s3) q ''id'')"
    proof
      fix q assume q: "q \<in> set items"
      have "take ?n ?h3 = ?h" using pre2 nm by simp
      then have "keeps ''id'' ?h ?h3" by (rule prefix_keeps)
      from keeps_val [OF this, of q] ids q show "truthy (jsprop (heap ?s3) q ''id'')" by simp
    qed
    have "priv_createParents E ?s3 (VRef ?n) info (VRef ?m)
        = Some (Inr (VRef ?m), ?s3\<lparr>heap := (heap ?s3)[?n := Arr [] ps, ?m := Arr ([] @ items) []]\<rparr>)"
    proof (rule priv_createParents_ids)
      show "?n < length (heap ?s3)" using nm by simp
      show "heap ?s3 ! ?n = Arr items ps" using n1 h2 nm by (simp add: nth_append)
      show "?m < length (heap ?s3)" by simp
      show "heap ?s3 ! ?m = Arr [] []" by simp
      show "?n \<noteq> ?m" using nm by simp
      show "\<forall>p \<in> set items. truthy (jsprop (heap ?s3) p ''id'')" by (rule ids3)
    qed
    with run have res: "createParents E s parents a = Some (Inr (VRef ?m), s2\<lparr>heap := ?hf\<rparr>)"
      by simp
    have "take ?n ?hf = ?h"
      using pre2 nm by (simp add: take_update_cancel)
    moreover have "array_items ?hf (VRef ?m) = Inr items"
      by (simp add: deref_def)
    moreover have "extends not_http s (s2\<lparr>heap := ?hf\<rparr>)"
      using e2 by (simp add: extends_def)
    moreover have "trace (s2\<lparr>heap := ?hf\<rparr>) = trace s"
      if "truthy a \<and> truthy (jsprop ?h a ''accessToken'')"
      using tok [OF that] by simp
    ultimately show ?thesis using res c2 by auto
  qed
qed

section \<open>Facts about parent resolution\<close>

lemma extends_heap: "extends P s (s\<lparr>heap := h\<rparr>)"
  by (simp add: extends_def)

lemma auth_resolution:
  assumes "auth E s a = (res, s')"
  shows "extends resolution_event s s'"
proof (cases "truthy a \<and> truthy (jsprop (heap s) a ''accessToken'')")
  case True
  with assms have "s' = s" by (simp add: auth_def)
  then show ?thesis by (simp add: extends_refl)
next
  case False
  then obtain ev r where st: "settle_auth (emit s ev) r = (res, s')" and ev: "resolution_event ev"
    using assms by (auto simp add: auth_def split: if_splits)
  from settle_auth_frame [OF st, of "''id''"] ev
  show ?thesis by (auto simp add: emit_def extends_def)
qed

lemma priv_createFolder_shape:
  assumes run: "priv_createFolder E s name token = (r, s')"
  shows "keeps k (heap s) (heap s') \<and> cachedFolders s' = cachedFolders s
     \<and> (trace s' = trace s \<or> (\<exists>jt. trace s' = trace s @ [Http (folder_request token jt)]))"
proof -
  let ?h1 = "heap s @ [Obj [(''name'', name),
      (''mimeType'', VStr ''application/vnd.google-apps.folder'')]]"
  show ?thesis
  proof (cases "JSON_stringify ?h1 (VRef (length (heap s)))")
    case (Inl e)
    with run have "s' = s\<lparr>heap := ?h1\<rparr>"
      by (simp add: priv_createFolder_def alloc_def)
    then show ?thesis by (simp add: keeps_append)
  next
    case (Inr jt)
    define s1 where "s1 = emit (s\<lparr>heap := ?h1\<rparr>) (Http (folder_request token jt))"
    have s1: "keeps k (heap s) (heap s1)" "trace s1 = trace s @ [Http (folder_request token jt)]"
      "cachedFolders s1 = cachedFolders s"
      by (simp_all add: s1_def emit_def keeps_append)
    have "keeps k (heap s1) (heap s') \<and> trace s' = trace s1 \<and> cachedFolders s' = cachedFolders s1"
    proof (cases "net_request E (trace s) (folder_request token jt)")
      case (NetError e)
      with run Inr have "s' = s1"
        by (simp add: priv_createFolder_def alloc_def folder_request_def s1_def Let_def)
      then show ?thesis by (simp add: keeps_refl)
    next
      case (Response resp)
      obtain v s2 where cb: "checked_body E s1 resp = (v, s2)"
        by (cases "checked_body E s1 resp")
      with run Inr Response have "s' = s2"
        by (auto simp add: priv_createFolder_def alloc_def folder_request_def s1_def Let_def
            split: sum.splits)
      with checked_body_frame [OF cb] show ?thesis by simp
    qed
    with s1 show ?thesis by (auto intro: keeps_trans)
  qed
qed

lemma createFolder_frame:
  assumes run: "createFolder E s name a = (r, s')"
  shows "keeps k (heap s) (heap s') \<and> cachedFolders s' = cachedFolders s
     \<and> extends resolution_event s s'"
proof -
  obtain r1 s1 where au: "auth E s a = (r1, s1)" by (cases "auth E s a")
  note f1 = auth_keeps [OF au, of k] auth_resolution [OF au] auth_frame [OF au]
  show ?thesis
  proof (cases "\<exists>token. r1 = Inr (fst token) \<and> get_prop (heap s1) (fst token) ''accessToken'' = Inr (snd token)")
    case False
    with run au have "s' = s1"
      by (auto simp add: createFolder_def split: sum.splits)
    with f1 show ?thesis by simp
  next
    case True
    then obtain info token where "r1 = Inr info" "get_prop (heap s1) info ''accessToken'' = Inr token"
      by auto
    with run au have pc: "priv_createFolder E s1 name token = (r, s')"
      by (simp add: createFolder_def)
    from priv_createFolder_shape [OF pc, of k]
    have "keeps k (heap s1) (heap s')" "cachedFolders s' = cachedFolders s1"
      "extends resolution_event s1 s'"
      by (auto simp add: extends_def folder_request_def)
    with f1 show ?thesis by (auto intro: keeps_trans extends_trans)
  qed
qed

lemma create_parent_frame:
  assumes run: "create_parent E s p a result = (r, s')" and k: "k \<noteq> ''length''" "k \<noteq> ''id''"
  shows "keeps k (heap s) (heap s') \<and> extends resolution_event s s'"
proof -
  obtain r1 s1 where cf: "createFolder E s (jsprop (heap s) p ''name'') a = (r1, s1)"
    by (cases "createFolder E s (jsprop (heap s) p ''name'') a")
  note f1 = createFolder_frame [OF cf, of k]
  have "keeps k (heap s1) (heap s') \<and> trace s' = trace s1"
  proof (cases r1)
    case (Inl e)
    with run cf show ?thesis by (simp add: create_parent_def keeps_refl)
  next
    case (Inr fid)
    show ?thesis
    proof (cases "set_prop (heap s1) p ''id'' fid")
      case (Inl e)
      with run cf Inr show ?thesis by (simp add: create_parent_def keeps_refl)
    next
      case h2: (Inr h2)
      have k2: "keeps k (heap s1) h2"
        using h2 k by (intro keeps_set_prop [where k' = "''id''"]) simp_all
      show ?thesis
      proof (cases "array_push h2 result p")
        case (Inl e)
        with run cf Inr h2 have "s' = s1\<lparr>heap := h2\<rparr>" by (simp add: create_parent_def)
        with k2 show ?thesis by simp
      next
        case h3: (Inr h3)
        have k3: "keeps k h2 h3"
          using h3 k(1) by (rule keeps_push)
        from run cf Inr h2 h3 have cp: "cache_push (s1\<lparr>heap := h3\<rparr>) p = (r, s')"
          by (simp add: create_parent_def)
        from cache_push_frame [OF cp k(1)]
        have "keeps k h3 (heap s')" "trace s' = trace s1" by simp_all
        with k2 k3 show ?thesis by (blast intro: keeps_trans)
      qed
    qed
  qed
  with f1 show ?thesis
    by (auto intro: keeps_trans extends_trans extends_same_trace)
qed

lemma priv_createParents_frame:
  assumes run: "priv_createParents E s parents a result = Some (r, s')"
    and k: "k \<noteq> ''length''" "k \<noteq> ''id''"
  shows "keeps k (heap s) (heap s') \<and> extends resolution_event s s'"
proof (rule priv_createParents_rel [OF run,
      where R = "\<lambda>s s'. keeps k (heap s) (heap s') \<and> extends resolution_event s s'"])
  show "keeps k (heap s) (heap s) \<and> extends resolution_event s s" for s
    by (simp add: keeps_refl extends_refl)
  show "keeps k (heap s) (heap s2) \<and> extends resolution_event s s2"
    if "keeps k (heap s) (heap s1) \<and> extends resolution_event s s1"
      "keeps k (heap s1) (heap s2) \<and> extends resolution_event s1 s2" for s s1 s2
    using that by (blast intro: keeps_trans extends_trans)
  show "keeps k (heap s) (heap (s\<lparr>heap := h1\<rparr>)) \<and> extends resolution_event s (s\<lparr>heap := h1\<rparr>)"
    if "array_shift (heap s) parents = Inr (p, h1)" for s p h1
    using keeps_shift [OF that k(1)] by (simp add: extends_heap)
  show "keeps k (heap s) (heap (s\<lparr>heap := h2\<rparr>)) \<and> extends resolution_event s (s\<lparr>heap := h2\<rparr>)"
    if "array_push (heap s) result p = Inr h2" for s p h2
    using keeps_push [OF that k(1)] by (simp add: extends_heap)
  show "keeps k (heap s) (heap s1) \<and> extends resolution_event s s1"
    if "create_parent E s p a result = (r, s1)" for s p r s1
    using that k by (rule create_parent_frame)
qed

lemma createParents_frame:
  assumes run: "createParents E s parents a = Some (r, s')"
    and k: "k \<noteq> ''length''" "k \<noteq> ''id''"
  shows "keeps k (heap s) (heap s') \<and> extends resolution_event s s'"
proof (cases "\<not> truthy parents \<or> \<not> truthy (jsprop (heap s) parents ''length'')")
  case True
  with run show ?thesis by (auto simp add: createParents_def keeps_refl extends_refl)
next
  case nonempty: False
  show ?thesis
  proof (cases "priv_normalizeParents (heap s) parents")
    case (Inl e)
    with run nonempty show ?thesis by (auto simp add: createParents_def keeps_refl extends_refl)
  next
    case (Inr hn)
    obtain h1 normal where hn: "hn = (h1, normal)" by (cases hn)
    have k1: "keeps k (heap s) h1"
      using Inr hn k(1) by (intro priv_normalizeParents_keeps [of _ parents _ normal]) simp_all
    show ?thesis
    proof (cases "truthy (jsprop h1 normal ''length'')")
      case False
      with run nonempty Inr hn have "s' = s\<lparr>heap := h1 @ [Arr [] []]\<rparr>"
        by (auto simp add: createParents_def alloc_def)
      with keeps_trans [OF k1 keeps_append] show ?thesis by (simp add: extends_heap)
    next
      case True
      obtain r1 s1 where au: "auth E (s\<lparr>heap := h1\<rparr>) a = (r1, s1)"
        by (cases "auth E (s\<lparr>heap := h1\<rparr>) a")
      have f1: "keeps k (heap s) (heap s1)" "extends resolution_event s s1"
        using auth_keeps [OF au, of k] auth_resolution [OF au] k1
        by (auto intro: keeps_trans simp add: extends_def)
      show ?thesis
      proof (cases r1)
        case (Inl e)
        with run nonempty Inr hn True au have "s' = s1"
          by (auto simp add: createParents_def)
        with f1 show ?thesis by simp
      next
        case info: (Inr info)
        with run nonempty Inr hn True au
        have rec: "priv_createParents E (s1\<lparr>heap := heap s1 @ [Arr [] []]\<rparr>) normal info
            (VRef (length (heap s1))) = Some (r, s')"
          by (auto simp add: createParents_def alloc_def)
        from priv_createParents_frame [OF rec k]
        have "keeps k (heap s1 @ [Arr [] []]) (heap s')"
          "extends resolution_event (s1\<lparr>heap := heap s1 @ [Arr [] []]\<rparr>) s'"
          by simp_all
        with f1 show ?thesis
          by (auto intro: keeps_trans [OF _ keeps_trans [OF keeps_append]] simp add: extends_def)
      qed
    qed
  qed
qed

lemma truthy_prop_ref:
  assumes "truthy (jsprop h p k)" and "k \<noteq> ''length''"
  shows "\<exists>x. p = VRef x \<and> x < length h"
proof (cases p)
  case (VRef x)
  with assms truthy_jsprop_valid [of h x k] show ?thesis by blast
qed (use assms in simp_all)

lemma jsprop_set_same:
  assumes "set_prop h (VRef x) k v = Inr h'" and "x < length h" and "k \<noteq> ''length''"
  shows "jsprop h' (VRef x) k = v"
  using assms by (auto simp add: deref_update lookup_update split: obj.splits if_splits)

lemma jsprop_delete_same: "k \<noteq> ''length'' \<Longrightarrow> jsprop (delete_prop h v k) v k = VUndefined"
  by (cases v) (auto simp add: deref_update lookup_delete deref_def lookup_Nil
      split: obj.splits if_splits)

lemma array_items_set_prop:
  assumes "set_prop h v k u = Inr h'"
  shows "array_items h' w = array_items h w"
  using assms
  by (cases v; cases w) (auto simp add: deref_update split: obj.splits if_splits)

lemma resolve_parents_result:
  assumes run: "resolve_parents E s resource info = Some (r, s2)"
  shows "extends resolution_event s s2
     \<and> (\<forall>created. r = Inr created
          \<and> truthy (jsprop (heap s) resource ''parents'')
          \<and> truthy (jsprop (heap s) (jsprop (heap s) resource ''parents'') ''length'') \<longrightarrow>
          (\<exists>s1. createParents E s (jsprop (heap s) resource ''parents'') info
                  = Some (Inr created, s1)
             \<and> trace s2 = trace s1
             \<and> parents_field (heap s1) created (heap s2) resource))"
proof (cases "truthy (jsprop (heap s) resource ''parents'')
    \<and> truthy (jsprop (heap s) (jsprop (heap s) resource ''parents'') ''length'')")
  case False
  with run show ?thesis by (auto simp add: resolve_parents_def Let_def extends_refl)
next
  case True
  let ?rp = "jsprop (heap s) resource ''parents''"
  from run True obtain r1 s1 where cp: "createParents E s ?rp info = Some (r1, s1)"
    by (cases "createParents E s ?rp info") (auto simp add: resolve_parents_def Let_def)
  from createParents_frame [OF cp, of "''parents''"]
  have k1: "keeps ''parents'' (heap s) (heap s1)" and e1: "extends resolution_event s s1"
    by simp_all
  have "truthy (jsprop (heap s1) resource ''parents'')"
    using keeps_val [OF k1, of resource] True by simp
  then obtain x where x: "resource = VRef x" "x < length (heap s1)"
    using truthy_prop_ref [of "heap s1" resource "''parents''"] by auto
  show ?thesis
  proof (cases r1)
    case (Inl e)
    with run True cp have "s2 = s1" "r = Inl e" by (simp_all add: resolve_parents_def Let_def)
    with e1 show ?thesis by simp
  next
    case (Inr created)
    show ?thesis
    proof (cases "\<not> truthy created \<or> \<not> truthy (jsprop (heap s1) created ''length'')")
      case empty: True
      with run True cp Inr
      have s2: "s2 = s1\<lparr>heap := delete_prop (heap s1) resource ''parents''\<rparr>" "r = Inr created"
        by (auto simp add: resolve_parents_def Let_def)
      have "parents_field (heap s1) created (heap s2) resource"
        using empty s2 by (simp add: parents_field_def jsprop_delete_same del: jsprop.simps)
      with s2 e1 cp Inr show ?thesis by (auto simp add: extends_def)
    next
      case nonempty: False
      show ?thesis
      proof (cases "array_items (heap s1) created")
        case (Inl e)
        with run True cp Inr nonempty have "s2 = s1" "r = Inl e"
          by (auto simp add: resolve_parents_def Let_def)
        with e1 show ?thesis by simp
      next
        case items: (Inr items)
        show ?thesis
        proof (cases "item_ids (heap s1) items")
          case (Inl e)
          with run True cp Inr nonempty items have "s2 = s1" "r = Inl e"
            by (auto simp add: resolve_parents_def Let_def)
          with e1 show ?thesis by simp
        next
          case ids: (Inr ids)
          let ?h2 = "heap s1 @ [Arr ids []]" and ?idsv = "VRef (length (heap s1))"
          show ?thesis
          proof (cases "set_prop ?h2 resource ''parents'' ?idsv")
            case (Inl e)
            with run True cp Inr nonempty items ids
            have "s2 = s1\<lparr>heap := ?h2\<rparr>" "r = Inl e"
              by (auto simp add: resolve_parents_def Let_def alloc_def)
            with e1 show ?thesis by (simp add: extends_def)
          next
            case h3: (Inr h3)
            with run True cp Inr nonempty items ids
            have s2: "s2 = s1\<lparr>heap := h3\<rparr>" "r = Inr created"
              by (auto simp add: resolve_parents_def Let_def alloc_def)
            have "jsprop h3 (VRef x) ''parents'' = ?idsv"
              using h3 x by (intro jsprop_set_same [of ?h2 x]) simp_all
            then have "jsprop h3 resource ''parents'' = ?idsv"
              using x by simp
            moreover have "array_items h3 ?idsv = Inr ids"
              using array_items_set_prop [OF h3, of ?idsv] by (simp add: deref_new)
            ultimately have "parents_field (heap s1) created (heap s2) resource"
              using nonempty items ids s2
              by (simp add: parents_field_def del: jsprop.simps array_items.simps)
            with s2 e1 cp Inr show ?thesis by (auto simp add: extends_def)
          qed
        qed
      qed
    qed
  qed
qed

lemma send_file_shape:
  assumes run: "send_file E s token resource fileId media = (r, s')"
  shows "trace s' = trace s
     \<or> (\<exists>jt. (if truthy resource then JSON_stringify (heap s) resource else Inr VUndefined) = Inr jt
          \<and> (trace s' = trace s @ [Http (session_request token fileId jt)]
             \<or> (\<exists>url b mt. trace s' = trace s @ [Http (session_request token fileId jt),
                                                 Http (upload_request token url b mt)])))"
proof -
  obtain r1 s1 where init: "priv_initializeSession E s token resource fileId = (r1, s1)"
    by (cases "priv_initializeSession E s token resource fileId")
  note sh = priv_initializeSession_shape [OF init]
  show ?thesis
  proof (cases "\<exists>url b. r1 = Inr url \<and> get_prop (heap s1) media ''body'' = Inr b")
    case False
    with run init have "s' = s1"
      by (auto simp add: send_file_def split: sum.splits)
    with sh show ?thesis by auto
  next
    case True
    then obtain url b where ok: "r1 = Inr url" "get_prop (heap s1) media ''body'' = Inr b"
      by auto
    with run init have up: "priv_upload E s1 token url b (jsprop (heap s1) media ''mimeType'') = (r, s')"
      by (simp add: send_file_def)
    from priv_upload_shape [OF up, of "''id''"]
    have "trace s' = trace s1 @ [Http (upload_request token url b (jsprop (heap s1) media ''mimeType''))]"
      by simp
    moreover from sh ok obtain jt where
      "(if truthy resource then JSON_stringify (heap s) resource else Inr VUndefined) = Inr jt"
      "trace s1 = trace s @ [Http (session_request token fileId jt)]"
      by auto
    ultimately show ?thesis by auto
  qed
qed


lemma session_request_event: "session_event (Http (session_request token None jt))"
  by (simp add: session_request_def)

lemma upload_request_event: "upload_event (Http (upload_request token url b mt))"
  by (simp add: upload_request_def)

section \<open>Facts about updates in place\<close>

lemma array_items_valid: "array_items h (VRef n) = Inr xs \<Longrightarrow> n < length h"
  by (cases "n < length h") (auto simp add: deref_def)

lemma array_items_append:
  "w < length h \<Longrightarrow> array_items (h @ new) (VRef w) = array_items h (VRef w)"
  by (simp add: deref_old)

lemma array_items_shift:
  assumes "array_items h (VRef n) = Inr (p # rest)"
  shows "\<exists>h1. array_shift h (VRef n) = Inr (p, h1) \<and> length h1 = length h
     \<and> (\<forall>w. array_items h1 (VRef w) = (if w = n then Inr rest else array_items h (VRef w)))
     \<and> (\<forall>v k. k \<noteq> ''length'' \<longrightarrow> jsprop h1 v k = jsprop h v k)"
proof -
  from assms obtain ps where d: "deref h n = Arr (p # rest) ps" and n: "n < length h"
    using array_items_valid [OF assms] by (auto split: obj.splits)
  have "jsprop (h[n := Arr rest ps]) v k = jsprop h v k" if "k \<noteq> ''length''" for v k
    using that d n by (cases v) (auto simp add: deref_update)
  with d n show ?thesis by (auto simp add: deref_update)
qed

lemma array_items_shift_empty:
  assumes "array_items h (VRef n) = Inr []"
  shows "array_shift h (VRef n) = Inr (VUndefined, h)"
  using assms by (auto split: obj.splits)

lemma array_items_push:
  assumes "array_items h (VRef m) = Inr rs"
  shows "\<exists>h1. array_push h (VRef m) v = Inr h1 \<and> length h1 = length h
     \<and> (\<forall>w. array_items h1 (VRef w) = (if w = m then Inr (rs @ [v]) else array_items h (VRef w)))
     \<and> (\<forall>u k. k \<noteq> ''length'' \<longrightarrow> jsprop h1 u k = jsprop h u k)"
proof -
  from assms obtain qs where d: "deref h m = Arr rs qs" and m: "m < length h"
    using array_items_valid [OF assms] by (auto split: obj.splits)
  have "jsprop (h[m := Arr (rs @ [v]) qs]) u k = jsprop h u k" if "k \<noteq> ''length''" for u k
    using that d m by (cases u) (auto simp add: deref_update)
  with d m show ?thesis by (auto simp add: deref_update)
qed

lemma set_prop_length: "set_prop h v k u = Inr h' \<Longrightarrow> length h' = length h"
  by (cases v) (auto split: obj.splits)

lemma jsprop_set_other:
  assumes "set_prop h v k u = Inr h'" and "k' \<noteq> k"
  shows "jsprop h' w k' = jsprop h w k'"
  using assms
  by (cases v; cases w) (auto simp add: deref_update lookup_update split: obj.splits if_splits)

lemma jsprop_append: "x < length h \<Longrightarrow> jsprop (h @ new) (VRef x) k = jsprop h (VRef x) k"
  by (simp add: deref_old)

lemma alloc_json_ref:
  "alloc_json h j = (h', v) \<Longrightarrow> (\<forall>y. v = VRef y \<longrightarrow> length h \<le> y \<and> y < length h')"
  by (cases j) (auto simp add: alloc_def split: prod.splits dest!: alloc_json_append(2,3))

lemma parse_body_append:
  assumes "parse_body E s r = (res, s')"
  shows "(\<exists>new. heap s' = heap s @ new)
     \<and> (\<forall>y. res = Inr (VRef y) \<longrightarrow> length (heap s) \<le> y \<and> y < length (heap s'))"
  using assms
  by (auto simp add: parse_body_def split: option.splits prod.splits
      dest: alloc_json_append(1) alloc_json_ref)

lemma checked_body_append:
  assumes "checked_body E s r = (res, s')"
  shows "\<exists>new. heap s' = heap s @ new"
  using assms parse_body_append [of E s r _ s']
  by (auto simp add: checked_body_def split: prod.splits sum.splits if_splits)

lemma priv_upload_append:
  assumes "priv_upload E s token url b mt = (res, s')"
  shows "(\<exists>new. heap s' = heap s @ new)
     \<and> (\<forall>y. res = Inr (VRef y) \<longrightarrow> length (heap s) \<le> y \<and> y < length (heap s'))"
  using assms parse_body_append [of E "emit s (Http (upload_request token url b mt))" _ res s']
  by (auto simp add: priv_upload_def upload_request_def emit_def Let_def split: http_outcome.splits)

lemma send_file_append:
  assumes run: "send_file E s token resource fileId media = (res, s')"
  shows "(\<exists>new. heap s' = heap s @ new)
     \<and> (\<forall>y. res = Inr (VRef y) \<longrightarrow> length (heap s) \<le> y \<and> y < length (heap s'))"
proof -
  obtain r1 s1 where init: "priv_initializeSession E s token resource fileId = (r1, s1)"
    by (cases "priv_initializeSession E s token resource fileId")
  from priv_initializeSession_shape [OF init] have h1: "heap s1 = heap s" by simp
  show ?thesis
  proof (cases "\<exists>url b. r1 = Inr url \<and> get_prop (heap s1) media ''body'' = Inr b")
    case False
    with run init have "s' = s1" "\<exists>e. res = Inl e"
      by (auto simp add: send_file_def split: sum.splits) metis
    with h1 show ?thesis by auto
  next
    case True
    then obtain url b where "r1 = Inr url" "get_prop (heap s1) media ''body'' = Inr b"
      by auto
    with run init have "priv_upload E s1 token url b (jsprop (heap s1) media ''mimeType'') = (res, s')"
      by (simp add: send_file_def)
    from priv_upload_append [OF this] h1 show ?thesis by simp
  qed
qed

lemma priv_createFolder_append:
  assumes run: "priv_createFolder E s name token = (r, s')"
  shows "\<exists>new. heap s' = heap s @ new"
proof -
  let ?h1 = "heap s @ [Obj [(''name'', name),
      (''mimeType'', VStr ''application/vnd.google-apps.folder'')]]"
  show ?thesis
  proof (cases "JSON_stringify ?h1 (VRef (length (heap s)))")
    case (Inl e)
    with run have "s' = s\<lparr>heap := ?h1\<rparr>"
      by (simp add: priv_createFolder_def alloc_def)
    then show ?thesis by simp
  next
    case (Inr jt)
    define s1 where "s1 = emit (s\<lparr>heap := ?h1\<rparr>) (Http (folder_request token jt))"
    have "\<exists>new. heap s' = heap s1 @ new"
    proof (cases "net_request E (trace s) (folder_request token jt)")
      case (NetError e)
      with run Inr have "s' = s1"
        by (simp add: priv_createFolder_def alloc_def folder_request_def s1_def Let_def)
      then show ?thesis by simp
    next
      case (Response resp)
      obtain v s2 where cb: "checked_body E s1 resp = (v, s2)"
        by (cases "checked_body E s1 resp")
      with run Inr Response have "s' = s2"
        by (auto simp add: priv_createFolder_def alloc_def folder_request_def s1_def Let_def
            split: sum.splits)
      with checked_body_append [OF cb] show ?thesis by simp
    qed
    then show ?thesis by (auto simp add: s1_def emit_def)
  qed
qed

lemma createFolder_append:
  assumes run: "createFolder E s name a = (r, s')"
  shows "\<exists>new. heap s' = heap s @ new"
proof -
  obtain r1 s1 where au: "auth E s a = (r1, s1)" by (cases "auth E s a")
  from auth_frame [OF au] obtain new1 where h1: "heap s1 = heap s @ new1" by auto
  show ?thesis
  proof (cases "\<exists>info token. r1 = Inr info \<and> get_prop (heap s1) info ''accessToken'' = Inr token")
    case False
    with run au have "s' = s1"
      by (auto simp add: createFolder_def split: sum.splits)
    with h1 show ?thesis by simp
  next
    case True
    then obtain info token where "r1 = Inr info" "get_prop (heap s1) info ''accessToken'' = Inr token"
      by auto
    with run au have "priv_createFolder E s1 name token = (r, s')"
      by (simp add: createFolder_def)
    from priv_createFolder_append [OF this] h1 show ?thesis by auto
  qed
qed


lemma cache_push_effect:
  assumes run: "cache_push s p = (r, s')"
    and cache: "cache_items s = Inr cs"
    and other: "array_items (heap s) (VRef w) = Inr xs" "cachedFolders s \<noteq> VRef w"
  shows "r = Inr () \<and> cache_items s' = Inr (cs @ [p])
     \<and> array_items (heap s') (VRef w) = Inr xs \<and> cachedFolders s' \<noteq> VRef w
     \<and> length (heap s) \<le> length (heap s')
     \<and> (\<forall>x k. x < length (heap s) \<and> k \<noteq> ''length'' \<longrightarrow>
           jsprop (heap s') (VRef x) k = jsprop (heap s) (VRef x) k)"
proof (cases "truthy (cachedFolders s)")
  case True
  with cache have ci: "array_items (heap s) (cachedFolders s) = Inr cs"
    by (simp add: cache_items_def)
  then obtain c where c: "cachedFolders s = VRef c"
    by (cases "cachedFolders s") auto
  from array_items_push [OF ci [unfolded c], of p] obtain h1 where
    push: "array_push (heap s) (VRef c) p = Inr h1" "length h1 = length (heap s)"
      "\<forall>w. array_items h1 (VRef w) = (if w = c then Inr (cs @ [p]) else array_items (heap s) (VRef w))"
      "\<forall>u k. k \<noteq> ''length'' \<longrightarrow> jsprop h1 u k = jsprop (heap s) u k"
    by blast
  from run True c push(1) have "r = Inr ()" "s' = s\<lparr>heap := h1\<rparr>"
    by (auto simp add: cache_push_def simp del: array_push.simps)
  with push c True other show ?thesis
    by (simp add: cache_items_def del: array_items.simps jsprop.simps)
next
  case False
  let ?h1 = "heap s @ [Arr [] []]" and ?c = "length (heap s)"
  have w: "w < length (heap s)" using other(1) by (rule array_items_valid)
  have "array_items ?h1 (VRef ?c) = Inr []" by (simp add: deref_new)
  from array_items_push [OF this, of p] obtain h2 where
    push: "array_push ?h1 (VRef ?c) p = Inr h2" "length h2 = length ?h1"
      "\<forall>w. array_items h2 (VRef w) = (if w = ?c then Inr ([] @ [p]) else array_items ?h1 (VRef w))"
      "\<forall>u k. k \<noteq> ''length'' \<longrightarrow> jsprop h2 u k = jsprop ?h1 u k"
    by blast
  from run False push(1) have s': "r = Inr ()" "s' = s\<lparr>heap := h2, cachedFolders := VRef ?c\<rparr>"
    by (auto simp add: cache_push_def alloc_def simp del: array_push.simps)
  have "cs = []" using cache False by (simp add: cache_items_def)
  moreover have "array_items h2 (VRef w) = Inr xs"
    using push(3) w other(1) by (simp add: deref_old del: array_items.simps)
      (simp add: deref_old)
  moreover have "jsprop h2 (VRef x) k = jsprop (heap s) (VRef x) k"
    if "x < length (heap s)" "k \<noteq> ''length''" for x k
    using push(4) that by (simp add: jsprop_append del: jsprop.simps)
  ultimately show ?thesis
    using s' push w by (simp add: cache_items_def del: array_items.simps jsprop.simps)
qed


lemma jsprop_set_other_addr:
  assumes "set_prop h (VRef x) k u = Inr h'" and "y \<noteq> x"
  shows "jsprop h' (VRef y) k' = jsprop h (VRef y) k'"
  using assms by (auto simp add: deref_update split: obj.splits if_splits)

lemma create_parent_effect:
  assumes run: "create_parent E s p a (VRef m) = (Inr u, s')"
    and p: "p = VRef x" "x < length (heap s)"
    and res: "array_items (heap s) (VRef m) = Inr rs"
    and par: "array_items (heap s) (VRef n) = Inr items"
    and sep: "n \<noteq> m" "cachedFolders s \<noteq> VRef n" "cachedFolders s \<noteq> VRef m"
    and cache: "cache_items s = Inr cs"
  shows "\<exists>fid s0. createFolder E s (jsprop (heap s) p ''name'') a = (Inr fid, s0)
      \<and> jsprop (heap s') p ''id'' = fid
      \<and> array_items (heap s') (VRef m) = Inr (rs @ [p])
      \<and> array_items (heap s') (VRef n) = Inr items
      \<and> cache_items s' = Inr (cs @ [p])
      \<and> cachedFolders s' \<noteq> VRef n \<and> cachedFolders s' \<noteq> VRef m
      \<and> length (heap s) \<le> length (heap s')
      \<and> (\<forall>y. y < length (heap s) \<and> y \<noteq> x \<longrightarrow>
            jsprop (heap s') (VRef y) ''id'' = jsprop (heap s) (VRef y) ''id'')"
proof -
  obtain r0 s0 where cf: "createFolder E s (jsprop (heap s) p ''name'') a = (r0, s0)"
    by (cases "createFolder E s (jsprop (heap s) p ''name'') a")
  from run cf obtain fid where fid: "r0 = Inr fid"
    by (cases r0) (auto simp add: create_parent_def)
  from createFolder_append [OF cf] obtain new where h0: "heap s0 = heap s @ new" by blast
  from createFolder_frame [OF cf, of "''id''"] have c0: "cachedFolders s0 = cachedFolders s"
    by simp
  have valid: "n < length (heap s)" "m < length (heap s)"
    using array_items_valid [OF par] array_items_valid [OF res] by blast+
  from run cf fid obtain h2 where h2: "set_prop (heap s0) p ''id'' fid = Inr h2"
    by (cases "set_prop (heap s0) p ''id'' fid") (auto simp add: create_parent_def)
  have l2: "length h2 = length (heap s0)" using h2 by (rule set_prop_length)
  have id2: "jsprop h2 p ''id'' = fid"
    using h2 p h0 by (simp add: jsprop_set_same del: set_prop.simps jsprop.simps)
  have items2: "array_items h2 (VRef w) = array_items (heap s) (VRef w)" if "w < length (heap s)" for w
    using array_items_set_prop [OF h2, of "VRef w"] h0 that
    by (simp add: array_items_append del: array_items.simps)
  have "array_items h2 (VRef m) = Inr rs" using items2 valid res by simp
  from array_items_push [OF this, of p] obtain h3 where
    push: "array_push h2 (VRef m) p = Inr h3" "length h3 = length h2"
      "\<forall>w. array_items h3 (VRef w) = (if w = m then Inr (rs @ [p]) else array_items h2 (VRef w))"
      "\<forall>u k. k \<noteq> ''length'' \<longrightarrow> jsprop h3 u k = jsprop h2 u k"
    by blast
  let ?s3 = "s0\<lparr>heap := h3\<rparr>"
  from run cf fid h2 push(1) have cp: "cache_push ?s3 p = (Inr u, s')"
    by (simp add: create_parent_def del: set_prop.simps array_push.simps)
  have cache3: "cache_items ?s3 = Inr cs"
  proof (cases "truthy (cachedFolders s)")
    case False
    with cache c0 show ?thesis by (simp add: cache_items_def)
  next
    case True
    with cache have ci: "array_items (heap s) (cachedFolders s) = Inr cs"
      by (simp add: cache_items_def)
    then obtain c where c: "cachedFolders s = VRef c" by (cases "cachedFolders s") auto
    with ci have "c < length (heap s)" using array_items_valid [of "heap s" c cs] by simp
    with ci c sep push(3) items2 [of c] have "array_items h3 (VRef c) = Inr cs" by simp
    with True c c0 show ?thesis by (simp add: cache_items_def del: array_items.simps)
  qed
  have m3: "array_items (heap ?s3) (VRef m) = Inr (rs @ [p])"
    and n3: "array_items (heap ?s3) (VRef n) = Inr items"
    using push(3) sep(1) items2 [of n] valid par by simp_all
  have sep3: "cachedFolders ?s3 \<noteq> VRef n" "cachedFolders ?s3 \<noteq> VRef m"
    using c0 sep by simp_all
  from cache_push_effect [OF cp cache3 m3 sep3(2)] cache_push_effect [OF cp cache3 n3 sep3(1)]
  have fin: "cache_items s' = Inr (cs @ [p])"
    "array_items (heap s') (VRef m) = Inr (rs @ [p])" "cachedFolders s' \<noteq> VRef m"
    "array_items (heap s') (VRef n) = Inr items" "cachedFolders s' \<noteq> VRef n"
    "length (heap ?s3) \<le> length (heap s')"
    "\<forall>y k. y < length (heap ?s3) \<and> k \<noteq> ''length'' \<longrightarrow>
        jsprop (heap s') (VRef y) k = jsprop (heap ?s3) (VRef y) k"
    by simp_all
  have len: "length (heap s) \<le> length (heap s')"
    using fin(6) push(2) l2 h0 by simp
  have "x < length (heap ?s3)" using p(2) push(2) l2 h0 by simp
  with fin(7) have "jsprop (heap s') (VRef x) ''id'' = jsprop h3 (VRef x) ''id''"
    by (simp del: jsprop.simps)
  also have "\<dots> = jsprop h2 (VRef x) ''id''" using push(4) by (simp del: jsprop.simps)
  finally have "jsprop (heap s') p ''id'' = fid" using id2 p(1) by (simp del: jsprop.simps)
  moreover have "jsprop (heap s') (VRef y) ''id'' = jsprop (heap s) (VRef y) ''id''"
    if y: "y < length (heap s)" "y \<noteq> x" for y
  proof -
    have "y < length (heap ?s3)" using y(1) push(2) l2 h0 by simp
    with fin(7) have "jsprop (heap s') (VRef y) ''id'' = jsprop h3 (VRef y) ''id''"
      by (simp del: jsprop.simps)
    also have "\<dots> = jsprop h2 (VRef y) ''id''" using push(4) by (simp del: jsprop.simps)
    also have "\<dots> = jsprop (heap s0) (VRef y) ''id''"
      using jsprop_set_other_addr [OF h2 [unfolded p(1)] y(2)] .
    also have "\<dots> = jsprop (heap s) (VRef y) ''id''"
      using h0 y(1) by (simp add: jsprop_append del: jsprop.simps)
    finally show ?thesis .
  qed
  ultimately show ?thesis using cf fid fin len by blast
qed




lemma cache_items_frame:
  assumes cache: "cache_items s = Inr cs"
    and sep: "cachedFolders s \<noteq> VRef n" "cachedFolders s \<noteq> VRef m"
    and same: "\<forall>w. w \<noteq> n \<and> w \<noteq> m \<longrightarrow> array_items h' (VRef w) = array_items (heap s) (VRef w)"
  shows "cache_items (s\<lparr>heap := h'\<rparr>) = Inr cs"
proof (cases "truthy (cachedFolders s)")
  case False
  with cache show ?thesis by (simp add: cache_items_def)
next
  case True
  with cache have ci: "array_items (heap s) (cachedFolders s) = Inr cs"
    by (simp add: cache_items_def)
  then obtain c where c: "cachedFolders s = VRef c" by (cases "cachedFolders s") auto
  with sep have "c \<noteq> n" "c \<noteq> m" by auto
  with same have "array_items h' (VRef c) = array_items (heap s) (VRef c)" by blast
  with ci c True show ?thesis by (simp add: cache_items_def del: array_items.simps)
qed

lemma priv_createParents_in_place:
  assumes run: "priv_createParents E s (VRef n) a (VRef m) = Some (Inr r, s')"
    and par: "array_items (heap s) (VRef n) = Inr items"
    and res: "array_items (heap s) (VRef m) = Inr rs"
    and objs: "\<forall>p \<in> set items. \<exists>x. p = VRef x \<and> x < length (heap s)"
    and dist: "distinct items"
    and sep: "n \<noteq> m" "cachedFolders s \<noteq> VRef n" "cachedFolders s \<noteq> VRef m"
    and cache: "cache_items s = Inr cs"
  shows "r = VRef m \<and> array_items (heap s') (VRef n) = Inr []
     \<and> array_items (heap s') (VRef m) = Inr (rs @ items)
     \<and> cache_items s'
         = Inr (cs @ filter (\<lambda>p. \<not> truthy (jsprop (heap s) p ''id'')) items)"
  using assms
proof (induction items arbitrary: s rs cs)
  case Nil
  from array_items_shift_empty [OF Nil.prems(2)] Nil.prems(1)
  have "r = VRef m" "s' = s"
    by (simp_all add: priv_createParents.simps [of E s] del: array_shift.simps)
  with Nil.prems show ?case by simp
next
  case (Cons p items)
  note run = Cons.prems(1) and par = Cons.prems(2) and res = Cons.prems(3)
    and objs = Cons.prems(4) and dist = Cons.prems(5) and nm = Cons.prems(6)
    and cn = Cons.prems(7) and cm = Cons.prems(8) and cache = Cons.prems(9)
  from objs obtain x where x: "p = VRef x" "x < length (heap s)" by auto
  from array_items_shift [OF par] obtain h1 where
    shift: "array_shift (heap s) (VRef n) = Inr (p, h1)" "length h1 = length (heap s)"
      "\<forall>w. array_items h1 (VRef w) = (if w = n then Inr items else array_items (heap s) (VRef w))"
      "\<forall>v k. k \<noteq> ''length'' \<longrightarrow> jsprop h1 v k = jsprop (heap s) v k"
    by blast
  let ?s1 = "s\<lparr>heap := h1\<rparr>"
  have id1: "jsprop h1 v ''id'' = jsprop (heap s) v ''id''" for v
    using shift(4) by simp
  have par1: "array_items h1 (VRef n) = Inr items"
    and res1: "array_items h1 (VRef m) = Inr rs"
    using shift(3) res nm by simp_all
  have cache1: "cache_items ?s1 = Inr cs"
    using cache cn cm shift(3) by (intro cache_items_frame [where n = n and m = m]) simp_all
  have objs1: "\<forall>q \<in> set items. \<exists>y. q = VRef y \<and> y < length h1"
    using objs shift(2) by simp
  have dist1: "distinct items" "p \<notin> set items" using dist by simp_all
  have unfold: "priv_createParents E s (VRef n) a (VRef m)
      = (if truthy (jsprop h1 p ''id'') then
           (case array_push h1 (VRef m) p of
              Inl e \<Rightarrow> Some (Inl e, ?s1)
            | Inr h2 \<Rightarrow> priv_createParents E (s\<lparr>heap := h2\<rparr>) (VRef n) a (VRef m))
         else
           (case create_parent E ?s1 p a (VRef m) of
              (Inl e, s1) \<Rightarrow> Some (Inl e, s1)
            | (Inr u, s1) \<Rightarrow> priv_createParents E s1 (VRef n) a (VRef m)))"
    using shift(1) x(1)
    by (subst priv_createParents.simps) (simp del: array_shift.simps array_push.simps jsprop.simps)
  show ?case
  proof (cases "truthy (jsprop h1 p ''id'')")
    case True
    from array_items_push [OF res1, of p] obtain h2 where
      push: "array_push h1 (VRef m) p = Inr h2" "length h2 = length h1"
        "\<forall>w. array_items h2 (VRef w) = (if w = m then Inr (rs @ [p]) else array_items h1 (VRef w))"
        "\<forall>u k. k \<noteq> ''length'' \<longrightarrow> jsprop h2 u k = jsprop h1 u k"
      by blast
    let ?s2 = "s\<lparr>heap := h2\<rparr>"
    have id2: "jsprop h2 v ''id'' = jsprop (heap s) v ''id''" for v
      using push(4) id1 by simp
    have run2: "priv_createParents E ?s2 (VRef n) a (VRef m) = Some (Inr r, s')"
      using run unfold True push(1) by simp
    have pre: "array_items (heap ?s2) (VRef n) = Inr items"
      "array_items (heap ?s2) (VRef m) = Inr (rs @ [p])"
      "\<forall>q \<in> set items. \<exists>y. q = VRef y \<and> y < length (heap ?s2)"
      using push(2,3) par1 objs1 nm by simp_all
    have sep2: "cachedFolders ?s2 \<noteq> VRef n" "cachedFolders ?s2 \<noteq> VRef m"
      using cn cm by simp_all
    have cache2: "cache_items ?s2 = Inr cs"
      using cache1 cn cm push(3) cache_items_frame [of ?s1 cs n m h2] by simp
    from Cons.IH [OF run2 pre dist1(1) nm sep2 cache2]
    have "r = VRef m" "array_items (heap s') (VRef n) = Inr []"
      "array_items (heap s') (VRef m) = Inr ((rs @ [p]) @ items)"
      "cache_items s'
         = Inr (cs @ filter (\<lambda>p. \<not> truthy (jsprop (heap ?s2) p ''id'')) items)"
      by simp_all
    moreover have "truthy (jsprop (heap s) p ''id'')" using True id1 by simp
    ultimately show ?thesis using id2 by (simp del: jsprop.simps)
  next
    case False
    obtain r1 s1 where cp: "create_parent E ?s1 p a (VRef m) = (r1, s1)"
      by (cases "create_parent E ?s1 p a (VRef m)")
    from run unfold False cp obtain u where u: "r1 = Inr u"
      by (cases r1) auto
    with run unfold False cp
    have run2: "priv_createParents E s1 (VRef n) a (VRef m) = Some (Inr r, s')"
      by simp
    have sep1: "cachedFolders ?s1 \<noteq> VRef n" "cachedFolders ?s1 \<noteq> VRef m"
      using cn cm by simp_all
    from create_parent_effect [OF cp [unfolded u] x(1) _ _ _ nm sep1 cache1,
        of rs items] x(2) shift(2) res1 par1
    have eff: "array_items (heap s1) (VRef m) = Inr (rs @ [p])"
      "array_items (heap s1) (VRef n) = Inr items"
      "cache_items s1 = Inr (cs @ [p])"
      "cachedFolders s1 \<noteq> VRef n" "cachedFolders s1 \<noteq> VRef m"
      "length h1 \<le> length (heap s1)"
      "\<forall>y. y < length h1 \<and> y \<noteq> x \<longrightarrow>
          jsprop (heap s1) (VRef y) ''id'' = jsprop h1 (VRef y) ''id''"
      by auto
    have objs2: "\<forall>q \<in> set items. \<exists>y. q = VRef y \<and> y < length (heap s1)"
      using objs1 eff(6) by fastforce
    have same: "jsprop (heap s1) q ''id'' = jsprop (heap s) q ''id''" if "q \<in> set items" for q
    proof -
      from that objs1 obtain y where y: "q = VRef y" "y < length h1" by auto
      with that dist1(2) x(1) have "y \<noteq> x" by auto
      with eff(7) y id1 [of q] show ?thesis by (simp del: jsprop.simps)
    qed
    then have filt: "filter (\<lambda>p. \<not> truthy (jsprop (heap s1) p ''id'')) items
        = filter (\<lambda>p. \<not> truthy (jsprop (heap s) p ''id'')) items"
      by (intro filter_cong) (simp_all del: jsprop.simps)
    from Cons.IH [OF run2 eff(2,1) objs2 dist1(1) nm eff(4,5,3)]
    have "r = VRef m" "array_items (heap s') (VRef n) = Inr []"
      "array_items (heap s') (VRef m) = Inr ((rs @ [p]) @ items)"
      "cache_items s'
         = Inr ((cs @ [p]) @ filter (\<lambda>p. \<not> truthy (jsprop (heap s1) p ''id'')) items)"
      by simp_all
    moreover have "\<not> truthy (jsprop (heap s) p ''id'')" using False id1 by simp
    ultimately show ?thesis unfolding filt by (simp del: jsprop.simps)
  qed
qed
section \<open>The first call of a run\<close>

lemma default_mimeType_token:
  assumes "default_mimeType i h resource = Inr h1"
  shows "jsprop h1 a ''accessToken'' = jsprop h a ''accessToken''"
proof (cases "\<not> truthy (jsprop h resource ''mimeType'') \<and> truthy (mime i)")
  case True
  with assms have "set_prop h resource ''mimeType'' (mime i) = Inr h1"
    by (simp add: default_mimeType_def split: if_splits del: set_prop.simps jsprop.simps)
  then show ?thesis by (rule jsprop_set_other) simp
next
  case False
  with assms have "h1 = h"
    by (auto simp add: default_mimeType_def split: if_splits simp del: set_prop.simps jsprop.simps)
  then show ?thesis by simp
qed

lemma auth_first_call:
  assumes run: "auth E s a = (r, s1)"
    and nt: "\<not> (truthy a \<and> truthy (jsprop (heap s) a ''accessToken''))"
  shows "trace s1
     = trace s @ [if truthy a then LaunchWebAuthFlow a else GetAuthToken (VBool True)]"
proof -
  let ?ev = "if truthy a then LaunchWebAuthFlow a else GetAuthToken (VBool True)"
  let ?answer = "if truthy a then launchWebAuthFlow E (trace s) (heap s) a
    else getAuthToken E (trace s) (VBool True)"
  have "auth E s a = settle_auth (emit s ?ev) ?answer"
    using nt by (auto simp add: auth_def simp del: jsprop.simps)
  with run have "settle_auth (emit s ?ev) ?answer = (r, s1)" by simp
  from settle_auth_frame [OF this, of "''accessToken''"] show ?thesis
    by (simp add: emit_def del: jsprop.simps)
qed

lemma lib_auth_call: 
  "\<not> (truthy a \<and> truthy (jsprop (heap s) a ''accessToken'')) \<Longrightarrow> lib_auth E s a = auth E s a"
  by (auto simp add: lib_auth_def auth_def simp del: jsprop.simps)

lemma extends_prefix: "extends P s s' \<Longrightarrow> prefix (trace s) (trace s')"
  by (auto simp add: extends_def)

lemma send_file_requests:
  assumes "send_file E s token resource fileId media = (r, s')"
  shows "extends (\<lambda>ev. no_authorizer ev \<and> \<not> not_http ev) s s'"
  using send_file_shape [OF assms]
  by (auto simp add: extends_def session_request_def upload_request_def)

lemma upload_tail:
  assumes "(case r1 of
              Inl e \<Rightarrow> (Inl e, s1)
            | Inr info \<Rightarrow>
                (case get_prop (heap s1) info ''accessToken'' of
                   Inl e \<Rightarrow> (Inl e, s1)
                 | Inr token \<Rightarrow> send_file E s1 token resource fileId media)) = (r, s')"
  shows "extends (\<lambda>ev. no_authorizer ev \<and> \<not> not_http ev) s1 s'"
  using assms by (auto split: sum.splits intro: send_file_requests extends_refl)

lemma update_after_auth:
  assumes run: "update i E s fileId resource media a = (r, s')"
    and dm: "default_mimeType i (heap s) resource = Inr h1"
    and au: "auth E (s\<lparr>heap := h1\<rparr>) a = (r1, s1)"
  shows "extends (\<lambda>ev. no_authorizer ev \<and> \<not> not_http ev) s1 s'"
proof -
  have "(case r1 of
           Inl e \<Rightarrow> (Inl e, s1)
         | Inr info \<Rightarrow>
             (case get_prop (heap s1) info ''accessToken'' of
                Inl e \<Rightarrow> (Inl e, s1)
              | Inr token \<Rightarrow> send_file E s1 token resource fileId media)) = (r, s')"
    using run dm au by (simp add: update_def split: sum.splits)
  then show ?thesis by (rule upload_tail)
qed

lemma lib_update_after_auth:
  assumes run: "lib_update i E s fileId resource media a = (r, s')"
    and dm: "default_mimeType i (heap s) resource = Inr h1"
    and au: "lib_auth E (s\<lparr>heap := h1\<rparr>) a = (r1, s1)"
  shows "extends (\<lambda>ev. no_authorizer ev \<and> \<not> not_http ev) s1 s'"
proof -
  have "(case r1 of
           Inl e \<Rightarrow> (Inl e, s1)
         | Inr info \<Rightarrow>
             (case get_prop (heap s1) info ''accessToken'' of
                Inl e \<Rightarrow> (Inl e, s1)
              | Inr token \<Rightarrow> send_file E s1 token resource fileId media)) = (r, s')"
    using run dm au by (simp add: lib_update_def split: sum.splits)
  then show ?thesis by (rule upload_tail)
qed

lemma lib_create_after_auth:
  assumes run: "lib_create i E s resource media a = (r, s')"
    and dm: "default_mimeType i (heap s) resource = Inr h1"
    and au: "lib_auth E (s\<lparr>heap := h1\<rparr>) a = (r1, s1)"
  shows "extends (\<lambda>ev. no_authorizer ev \<and> \<not> not_http ev) s1 s'"
proof -
  have "(case r1 of
           Inl e \<Rightarrow> (Inl e, s1)
         | Inr info \<Rightarrow>
             (case get_prop (heap s1) info ''accessToken'' of
                Inl e \<Rightarrow> (Inl e, s1)
              | Inr token \<Rightarrow> send_file E s1 token resource None media)) = (r, s')"
    using run dm au by (simp add: lib_create_def split: sum.splits)
  then show ?thesis by (rule upload_tail)
qed

lemma createFolder_after_auth:
  assumes run: "createFolder E s name a = (r, s')" and au: "auth E s a = (r1, s1)"
  shows "prefix (trace s1) (trace s')"
proof (cases "\<exists>info token. r1 = Inr info \<and> get_prop (heap s1) info ''accessToken'' = Inr token")
  case False
  with run au have "s' = s1" by (auto simp add: createFolder_def split: sum.splits)
  then show ?thesis by simp
next
  case True
  then obtain info token where "r1 = Inr info" "get_prop (heap s1) info ''accessToken'' = Inr token"
    by auto
  with run au have "priv_createFolder E s1 name token = (r, s')"
    by (simp add: createFolder_def)
  from priv_createFolder_shape [OF this, of "''id''"] show ?thesis by auto
qed

lemma create_after_auth:
  assumes run: "create i E s resource media a = Some (r, s')"
    and dm: "default_mimeType i (heap s) resource = Inr h1"
    and au: "auth E (s\<lparr>heap := h1\<rparr>) a = (r1, s1)"
  shows "prefix (trace s1) (trace s')"
proof (cases "\<exists>info token. r1 = Inr info \<and> get_prop (heap s1) info ''accessToken'' = Inr token")
  case False
  with run dm au have "s' = s1" by (auto simp add: create_def split: sum.splits)
  then show ?thesis by simp
next
  case True
  then obtain info token where info: "r1 = Inr info"
    "get_prop (heap s1) info ''accessToken'' = Inr token"
    by auto
  from run dm au info obtain r2 s2 where rp: "resolve_parents E s1 resource info = Some (r2, s2)"
    by (cases "resolve_parents E s1 resource info") (auto simp add: create_def)
  from resolve_parents_result [OF rp] have p2: "prefix (trace s1) (trace s2)"
    by (blast intro: extends_prefix)
  show ?thesis
  proof (cases r2)
    case (Inl e)
    with run dm au info rp have "s' = s2" by (simp add: create_def)
    with p2 show ?thesis by simp
  next
    case (Inr created)
    obtain r3 s3 where sf: "send_file E s2 token resource None media = (r3, s3)"
      by (cases "send_file E s2 token resource None media")
    have "trace s' = trace s3"
      using run dm au info rp Inr sf
      by (auto simp add: create_def split: sum.splits if_splits)
    moreover have "prefix (trace s2) (trace s3)"
      using send_file_requests [OF sf] by (rule extends_prefix)
    ultimately show ?thesis using p2 by (auto intro: prefix_order.trans)
  qed
qed
section \<open>Properties of the pending-operation table\<close>

lemma show_nat_digits: "set (show_nat n) \<subseteq> set ''0123456789''"
proof (induction n rule: show_nat.induct)
  case (1 n)
  have digit: "''0123456789'' ! k \<in> set ''0123456789''" if "k < 10" for k
    using that by (intro nth_mem) simp
  show ?case
  proof (cases "n < 10")
    case True
    then have "show_nat n = [''0123456789'' ! n]" by (subst show_nat.simps) (simp del: show_nat.simps)
    with digit [OF True] show ?thesis by (simp del: show_nat.simps)
  next
    case False
    then have eq: "show_nat n = show_nat (n div 10) @ [''0123456789'' ! (n mod 10)]"
      by (subst show_nat.simps) (simp del: show_nat.simps)
    have "n mod 10 < 10" by simp
    from digit [OF this] "1.IH" [OF False] show ?thesis
      unfolding eq by (simp del: show_nat.simps)
  qed
qed

lemma show_nat_nonempty: "show_nat n \<noteq> []"
  by (subst show_nat.simps) (simp del: show_nat.simps)

lemma show_nat_not_inherited: "show_nat n \<notin> set object_prototype"
proof
  assume "show_nat n \<in> set object_prototype"
  moreover have "\<forall>k \<in> set object_prototype. hd k \<notin> set ''0123456789''"
    by (simp add: object_prototype_def)
  ultimately have "hd (show_nat n) \<notin> set ''0123456789''" by blast
  moreover have "hd (show_nat n) \<in> set (show_nat n)"
    using show_nat_nonempty [of n] by (intro hd_in_set)
  ultimately show False using show_nat_digits [of n] by blast
qed

text \<open>
  The table as a state machine, for the ids that do not name a property of
  \<open>Object.prototype\<close> (among them every number, so every id the renderer issues).
  Delivering a result or an error for an id with no registered pending operation leaves
  the whole state as it is. Delivering to a registered id removes exactly that entry
  and calls its resolve (for a result) or its reject (for an error) callback once, with
  the delivered value. After either delivery a further result or error for the same id
  changes nothing.
\<close>

lemma pending_state_machine:
  fixes d :: "('f, 'v) renderer"
  assumes plain: "key_of i \<notin> set object_prototype"
  shows "(promises d (key_of i) = None \<longrightarrow>
            mainResultHandler d i x = Inr d \<and> mainErrorHandler d i x = Inr d)
       \<and> (\<forall>p. promises d (key_of i) = Some p \<longrightarrow>
            mainResultHandler d i x
              = Inr (d\<lparr>promises := (promises d)(key_of i := None),
                       calls := calls d @ [(resolve p, x)]\<rparr>)
          \<and> mainErrorHandler d i x
              = Inr (d\<lparr>promises := (promises d)(key_of i := None),
                       calls := calls d @ [(reject p, x)]\<rparr>))
       \<and> (\<forall>d1. mainResultHandler d i x = Inr d1 \<or> mainErrorHandler d i x = Inr d1 \<longrightarrow>
            mainResultHandler d1 i y = Inr d1 \<and> mainErrorHandler d1 i y = Inr d1)"
  using plain
  by (cases "promises d (key_of i)")
    (auto simp add: mainResultHandler_def mainErrorHandler_def lookup_promise_def)

lemma pending_numeric_id:
  "mainResultHandler (snd (dispatchListAppFolders new_renderer ''opts'' ''res1'' ''rej1''))
       (IdNum 1) ''folders''
     = Inr \<lparr>promises = Map.empty, index = 1, calls = [(''res1'', ''folders'')],
            sent = [(''google-drive-list-app-folders'', 1, ''opts'')]\<rparr>
   \<and> mainErrorHandler \<lparr>promises = Map.empty, index = 1, calls = [(''res1'', ''folders'')],
            sent = [(''google-drive-list-app-folders'', 1, ''opts'')]\<rparr> (IdNum 1) ''late''
     = Inr \<lparr>promises = Map.empty, index = 1, calls = [(''res1'', ''folders'')],
            sent = [(''google-drive-list-app-folders'', 1, ''opts'')]\<rparr>"
  by (simp add: mainResultHandler_def mainErrorHandler_def lookup_promise_def
      dispatchListAppFolders_def addPromise_def new_renderer_def Let_def
      show_nat_not_inherited del: show_nat.simps)

text \<open>
  Claim C2 fails for the other ids. A notification whose id is not registered and names
  a property that a plain object inherits, such as \<open>constructor\<close> or \<open>__proto__\<close>, is not
  dropped: the lookup finds the inherited value, and both handlers raise \<open>TypeError\<close>.
\<close>

theorem unregistered_id_throws:
  assumes "promises d k = None" and "k \<in> set object_prototype"
  shows "mainResultHandler d (IdStr k) x = Inl TypeError
       \<and> mainErrorHandler d (IdStr k) x = Inl TypeError"
  using assms by (simp add: mainResultHandler_def mainErrorHandler_def lookup_promise_def)

theorem unregistered_id_throws_witness:
  "mainResultHandler (new_renderer :: (string, string) renderer) (IdStr ''constructor'') ''file''
     = Inl TypeError
   \<and> mainErrorHandler (new_renderer :: (string, string) renderer) (IdStr ''constructor'') ''file''
     = Inl TypeError"
  using unregistered_id_throws [of "new_renderer :: (string, string) renderer"
      "''constructor''" "''file''"]
  by (simp add: new_renderer_def object_prototype_def)
section \<open>Session initialization\<close>

lemma stringify_file:
  "JSON_stringify [Obj [(''name'', VStr ''f.json'')]] (VRef 0)
     = Inr (VStr (CHR ''{'' # quote ''name'' @ CHR '':'' # quote ''f.json'' @ ''}''))"
  by (simp add: JSON_stringify_def deref_def)

lemma initializeSession_file:
  "priv_initializeSession E file_state (VStr ''tok'') (VRef 0) None =
     (case net_request E [] file_request of
        NetError e \<Rightarrow> (Inl (Rejection e), emit file_state (Http file_request))
      | Response r \<Rightarrow> (initializeSession_response r, emit file_state (Http file_request)))"
  unfolding priv_initializeSession_def file_state_def file_request_def
  by (simp add: stringify_file Let_def split: http_outcome.splits)

text \<open>
  Claim C1, as amended. Whenever \<open>_initializeSession\<close> has issued its request and the
  transport answers with a response: a status of 400 or more rejects with the fixed
  prefix followed by all chunks of the body; a status below 400 resolves with the
  \<open>location\<close> header when it is a non-empty string, and with its first element when it
  is an array (\<open>undefined\<close> for an empty array); a status below 400 with no \<open>location\<close>
  header, or with one that is the empty string, rejects.
\<close>

theorem initializeSession_settles:
  assumes run: "priv_initializeSession E s token meta fileId = (res, s')"
    and sent: "trace s' = trace s @ [Http rq]"
    and answer: "net_request E (trace s) rq = Response r"
  shows "(statusCode r \<ge> 400 \<longrightarrow>
            res = Inl (Error (''Could not initialize Drive upload session. Reason: ''
                              @ concat (chunks r))))
       \<and> (statusCode r < 400 \<longrightarrow>
            (\<forall>x. location r = HSingle x \<and> x \<noteq> [] \<longrightarrow> res = Inr (VStr x))
          \<and> (\<forall>x xs. location r = HMany (x # xs) \<longrightarrow> res = Inr (VStr x))
          \<and> (location r = HMany [] \<longrightarrow> res = Inr VUndefined)
          \<and> (location r = HAbsent \<or> location r = HSingle [] \<longrightarrow>
                res = Inl (Error ''Could not initialize Drive upload session.'')))"
proof -
  have "res = initializeSession_response r"
    using run sent answer
    by (auto simp add: priv_initializeSession_def emit_def Let_def
        split: sum.splits http_outcome.splits prod.splits option.splits if_splits)
  then show ?thesis
    by (auto simp add: initializeSession_response_def)
qed

text \<open>
  The run of the specification: status 403 with the body \<open>quota exceeded\<close> rejects with
  a message that ends in \<open>quota exceeded\<close>.
\<close>

theorem initializeSession_settles_witness:
  "fst (priv_initializeSession quota_env file_state (VStr ''tok'') (VRef 0) None)
     = Inl (Error ''Could not initialize Drive upload session. Reason: quota exceeded'')"
proof -
  have run: "priv_initializeSession quota_env file_state (VStr ''tok'') (VRef 0) None
      = (initializeSession_response
           \<lparr>statusCode = 403, location = HAbsent, chunks = [''quota '', ''exceeded'']\<rparr>,
         emit file_state (Http file_request))"
    by (simp add: initializeSession_file quota_env_def)
  have sent: "trace (emit file_state (Http file_request)) = trace file_state @ [Http file_request]"
    by (simp add: emit_def)
  have answer: "net_request quota_env (trace file_state) file_request
      = Response \<lparr>statusCode = 403, location = HAbsent, chunks = [''quota '', ''exceeded'']\<rparr>"
    by (simp add: quota_env_def)
  from initializeSession_settles [OF run sent answer] show ?thesis
    by (simp add: run)
qed

text \<open>
  The claim as first stated fails: the response has status 200 and carries a
  \<open>location\<close> header, its value the empty string, and the operation does not return that
  value but rejects.
\<close>

theorem location_present_but_rejected:
  "net_request empty_location_env (trace file_state) file_request
     = Response \<lparr>statusCode = 200, location = HSingle [], chunks = []\<rparr>
   \<and> trace (snd (priv_initializeSession empty_location_env file_state (VStr ''tok'') (VRef 0) None))
     = trace file_state @ [Http file_request]
   \<and> fst (priv_initializeSession empty_location_env file_state (VStr ''tok'') (VRef 0) None)
     \<noteq> Inr (VStr [])
   \<and> fst (priv_initializeSession empty_location_env file_state (VStr ''tok'') (VRef 0) None)
     = Inl (Error ''Could not initialize Drive upload session.'')"
proof -
  have run: "priv_initializeSession empty_location_env file_state (VStr ''tok'') (VRef 0) None
      = (initializeSession_response \<lparr>statusCode = 200, location = HSingle [], chunks = []\<rparr>,
         emit file_state (Http file_request))"
    by (simp add: initializeSession_file empty_location_env_def)
  show ?thesis
    unfolding run by (simp add: emit_def empty_location_env_def initializeSession_response_def)
qed

section \<open>The media payload\<close>

lemma createMedia_object_body:
  "priv_createMedia arc_inst media_store (VRef 0)
     = Inr (media_store @
              [Obj [(''mimeType'', VStr ''application/json''),
                    (''body'', VStr (CHR ''{'' # quote ''property'' @ CHR '':''
                                       # quote ''value'' @ ''}''))]],
            VRef 3)"
  by (simp add: priv_createMedia_def arc_inst_fields or_else_def alloc_def
      media_store_def deref_def lookup_def JSON_stringify_def)

lemma createMedia_no_body:
  "priv_createMedia arc_inst media_store (VRef 2)
     = Inr (media_store @ [Obj [(''mimeType'', VStr ''text/plain''), (''body'', VUndefined)]],
            VRef 3)"
  by (simp add: priv_createMedia_def arc_inst_fields or_else_def alloc_def
      media_store_def deref_def lookup_def JSON_stringify_def)

text \<open>
  Claim C9, as amended. In the payload that \<open>_createMedia\<close> returns, \<open>mimeType\<close> is the
  \<open>type\<close> of the configuration when that is set and the instance's \<open>fileType\<close>
  otherwise; a string body is passed through; any other body is replaced by the result
  of \<open>JSON.stringify\<close>; and the body of the payload is a string whenever the
  configuration has a body, that is, one other than \<open>undefined\<close>.
\<close>

theorem createMedia_payload:
  assumes run: "priv_createMedia i h config = Inr (h', media)"
  shows "jsprop h' media ''mimeType''
           = (if truthy (jsprop h config ''type'') then jsprop h config ''type'' else fileType i)
       \<and> (is_string (jsprop h config ''body'') \<longrightarrow>
            jsprop h' media ''body'' = jsprop h config ''body'')
       \<and> (\<not> is_string (jsprop h config ''body'') \<longrightarrow>
            JSON_stringify h (jsprop h config ''body'') = Inr (jsprop h' media ''body''))
       \<and> (jsprop h config ''body'' \<noteq> VUndefined \<longrightarrow> is_string (jsprop h' media ''body''))"
proof -
  obtain b where ser: "(if \<not> is_string (jsprop h config ''body'')
        then JSON_stringify h (jsprop h config ''body'') else Inr (jsprop h config ''body'')) = Inr b"
    and res: "h' = h @ [Obj [(''mimeType'', or_else (jsprop h config ''type'') (fileType i)),
                             (''body'', b)]]"
             "media = VRef (length h)"
    using run
    by (auto simp add: priv_createMedia_def Let_def alloc_def split: if_splits sum.splits)
  have mt: "jsprop h' media ''mimeType'' = or_else (jsprop h config ''type'') (fileType i)"
    and bd: "jsprop h' media ''body'' = b"
    unfolding res by (simp_all add: deref_new lookup_def)
  have str: "jsprop h config ''body'' \<noteq> VUndefined \<longrightarrow> is_string b"
    using ser JSON_stringify_string [of h "jsprop h config ''body''" b]
    by (auto split: if_splits)
  show ?thesis
    using ser mt bd str by (auto simp add: or_else_def split: if_splits)
qed

text \<open>
  The configuration \<open>{body: {property: 'value'}}\<close> on the instance with the ARC
  defaults: the payload has the default type and the JSON text of the body.
\<close>

theorem createMedia_payload_witness:
  "jsprop (fst (projr (priv_createMedia arc_inst media_store (VRef 0))))
          (snd (projr (priv_createMedia arc_inst media_store (VRef 0)))) ''mimeType''
     = VStr ''application/json''
   \<and> is_string (jsprop (fst (projr (priv_createMedia arc_inst media_store (VRef 0))))
                       (snd (projr (priv_createMedia arc_inst media_store (VRef 0)))) ''body'')"
  using createMedia_payload [OF createMedia_object_body]
  unfolding createMedia_object_body
  by (simp add: media_store_def deref_def lookup_def arc_inst_fields)

text \<open>
  The claim as first stated fails: for the configuration \<open>{type: 'text/plain'}\<close> the
  payload is returned and its body is \<open>undefined\<close>, not a string.
\<close>

theorem createMedia_body_not_string:
  "priv_createMedia arc_inst media_store (VRef 2)
     = Inr (media_store @ [Obj [(''mimeType'', VStr ''text/plain''), (''body'', VUndefined)]],
            VRef 3)
   \<and> \<not> is_string (jsprop
         (media_store @ [Obj [(''mimeType'', VStr ''text/plain''), (''body'', VUndefined)]])
         (VRef 3) ''body'')"
  unfolding createMedia_no_body
  by (simp add: media_store_def deref_def lookup_def)

section \<open>The default of \<open>resource.mimeType\<close>\<close>

lemmas run_defs =
  create_def update_def default_mimeType_def auth_def settle_auth_def resolve_parents_def
  get_prop_def send_file_def priv_initializeSession_def priv_upload_def parse_body_def
  initializeSession_response_def emit_def deref_def lookup_def JSON_stringify_def alloc_def
  Let_def

lemma create_arc_defaults:
  "create arc_inst upload_env create_state (VRef 0) (VRef 1) (VRef 2)
     = Some (Inr (VRef 3),
         \<lparr>heap = heap create_state @ [Obj [(''id'', VStr ''file1'')]],
          cachedFolders = VUndefined,
          trace = [Http file_request, Http put_request]\<rparr>)"
  by (simp add: run_defs arc_inst_fields create_state_def upload_env_def file_request_def
      put_request_def)

text \<open>
  Claim C3 at the instance \<open>new DriveExport(DriveExport.arcDefaults)\<close>. The options name
  the default \<open>mime: 'application/restclient+data'\<close>, but the constructor reads
  \<open>opts.opts\<close>, so \<open>this.mime\<close> is \<open>undefined\<close>. A resource without \<open>mimeType\<close> given to
  \<open>create\<close> is then sent as it is: the body of the session-initialization request is
  \<open>{"name":"f.json"}\<close>, and after the call the resource still has no \<open>mimeType\<close>.
\<close>

theorem mime_default_ignored:
  "jsprop [arcDefaults] (VRef 0) ''mime'' = VStr ''application/restclient+data''
   \<and> mime (constructor [arcDefaults] (VRef 0)) = VUndefined
   \<and> jsprop (heap create_state) (VRef 0) ''mimeType'' = VUndefined
   \<and> (\<exists>s'. create (constructor [arcDefaults] (VRef 0)) upload_env create_state
               (VRef 0) (VRef 1) (VRef 2) = Some (Inr (VRef 3), s')
          \<and> jsprop (heap s') (VRef 0) ''mimeType'' = VUndefined
          \<and> trace s' = [Http file_request, Http put_request]
          \<and> req_body file_request
               = Some (VStr (CHR ''{'' # quote ''name'' @ CHR '':'' # quote ''f.json'' @ ''}'')))"
proof -
  have run: "create (constructor [arcDefaults] (VRef 0)) upload_env create_state
      (VRef 0) (VRef 1) (VRef 2)
    = Some (Inr (VRef 3),
         \<lparr>heap = heap create_state @ [Obj [(''id'', VStr ''file1'')]],
          cachedFolders = VUndefined,
          trace = [Http file_request, Http put_request]\<rparr>)"
    using create_arc_defaults by (simp add: arc_inst_def)
  show ?thesis
    unfolding run
    by (simp add: arcDefaults_def constructor_def create_state_def deref_def lookup_def
        file_request_def)
qed

section \<open>Authorization\<close>

lemma create_parents_run:
  "create arc_inst upload_env parents_state (VRef 0) (VRef 4) (VRef 5)
     = Some (Inr (VRef 16), parents_final)"
  by code_simp

lemma extends_mono: "extends P s s' \<Longrightarrow> (\<And>ev. P ev \<Longrightarrow> Q ev) \<Longrightarrow> extends Q s s'"
  by (auto simp add: extends_def list_all_iff)

lemma lib_runs_with_token:
  assumes tk: "truthy a \<and> truthy (jsprop (heap s) a ''accessToken'')"
  shows "extends no_authorizer s (snd (lib_create i E s resource media a))
       \<and> extends no_authorizer s (snd (lib_update i E s fileId resource media a))"
proof (cases "default_mimeType i (heap s) resource")
  case (Inl e)
  then show ?thesis by (simp add: lib_create_def lib_update_def extends_refl)
next
  case (Inr h1)
  from default_mimeType_token [OF Inr, of a] tk
  have au: "lib_auth E (s\<lparr>heap := h1\<rparr>) a = (Inr (jsprop h1 a ''accessToken''), s\<lparr>heap := h1\<rparr>)"
    by (simp add: lib_auth_def del: jsprop.simps)
  obtain rc sc where rc: "lib_create i E s resource media a = (rc, sc)"
    by (cases "lib_create i E s resource media a")
  obtain ru su where ru: "lib_update i E s fileId resource media a = (ru, su)"
    by (cases "lib_update i E s fileId resource media a")
  have "extends no_authorizer (s\<lparr>heap := h1\<rparr>) sc"
    using lib_create_after_auth [OF rc Inr au] by (rule extends_mono) simp
  moreover have "extends no_authorizer (s\<lparr>heap := h1\<rparr>) su"
    using lib_update_after_auth [OF ru Inr au] by (rule extends_mono) simp
  ultimately show ?thesis using rc ru by (auto intro: extends_from [of "s\<lparr>heap := h1\<rparr>" s])
qed

lemma runs_call_first:
  assumes nt: "\<not> (truthy a \<and> truthy (jsprop (heap s) a ''accessToken''))"
    and ev: "ev = (if truthy a then LaunchWebAuthFlow a else GetAuthToken (VBool True))"
  shows "trace (snd (auth E s a)) = trace s @ [ev]
     \<and> lib_auth E s a = auth E s a
     \<and> calls_first ev s (snd (createFolder E s name a))
     \<and> (\<forall>h1. default_mimeType i (heap s) resource = Inr h1 \<longrightarrow>
           (\<forall>r s'. create i E s resource media a = Some (r, s') \<longrightarrow> calls_first ev s s')
         \<and> calls_first ev s (snd (update i E s fileId resource media a))
         \<and> calls_first ev s (snd (lib_create i E s resource media a))
         \<and> calls_first ev s (snd (lib_update i E s fileId resource media a)))"
proof (intro conjI allI impI)
  obtain r1 s1 where au: "auth E s a = (r1, s1)" by (cases "auth E s a")
  from auth_first_call [OF au nt] have t1: "trace s1 = trace s @ [ev]" by (simp add: ev)
  with au show "trace (snd (auth E s a)) = trace s @ [ev]" by simp
  show "lib_auth E s a = auth E s a" using nt by (rule lib_auth_call)
  obtain r s' where cf: "createFolder E s name a = (r, s')"
    by (cases "createFolder E s name a")
  from createFolder_after_auth [OF cf au] t1 cf
  show "calls_first ev s (snd (createFolder E s name a))"
    by (simp add: calls_first_def)
next
  fix h1 assume dm: "default_mimeType i (heap s) resource = Inr h1"
  let ?s0 = "s\<lparr>heap := h1\<rparr>"
  have nt1: "\<not> (truthy a \<and> truthy (jsprop (heap ?s0) a ''accessToken''))"
    using nt default_mimeType_token [OF dm, of a] by simp
  obtain r1 s1 where au: "auth E ?s0 a = (r1, s1)" by (cases "auth E ?s0 a")
  from auth_first_call [OF au nt1] have t1: "trace s1 = trace s @ [ev]" by (simp add: ev)
  have lau: "lib_auth E ?s0 a = (r1, s1)" using lib_auth_call [OF nt1] au by simp
  show "calls_first ev s s'" if "create i E s resource media a = Some (r, s')" for r s'
    using create_after_auth [OF that dm au] t1 by (simp add: calls_first_def)
  obtain ru su where ru: "update i E s fileId resource media a = (ru, su)"
    by (cases "update i E s fileId resource media a")
  from extends_prefix [OF update_after_auth [OF ru dm au]] t1 ru
  show "calls_first ev s (snd (update i E s fileId resource media a))"
    by (simp add: calls_first_def)
  obtain rc sc where rc: "lib_create i E s resource media a = (rc, sc)"
    by (cases "lib_create i E s resource media a")
  from extends_prefix [OF lib_create_after_auth [OF rc dm lau]] t1 rc
  show "calls_first ev s (snd (lib_create i E s resource media a))"
    by (simp add: calls_first_def)
  obtain rl sl where rl: "lib_update i E s fileId resource media a = (rl, sl)"
    by (cases "lib_update i E s fileId resource media a")
  from extends_prefix [OF lib_update_after_auth [OF rl dm lau]] t1 rl
  show "calls_first ev s (snd (lib_update i E s fileId resource media a))"
    by (simp add: calls_first_def)
qed

text \<open>
  Claim C4, as amended. When the auth argument has an access token, \<open>auth\<close> returns
  without calling the Authorizer, in every version of the class, and no run of
  \<open>create\<close>, \<open>update\<close> or \<open>createFolder\<close> calls the Authorizer; in the versions that
  resolve parents every HTTP request of such a run carries that token. When the argument
  is set but has no access token, the first thing a run of \<open>auth\<close>, \<open>createFolder\<close>,
  \<open>create\<close> or \<open>update\<close> does to the outside is the call of \<open>launchWebAuthFlow\<close> with that
  argument (for \<open>create\<close> and \<open>update\<close>: when the resource is an object, so that the
  first statement does not raise). When there is no argument, that first call is
  \<open>getAuthToken({interactive: true})\<close>. What \<open>auth\<close> returns is what the Authorizer
  answered.
\<close>

theorem auth_delegation:
  "(truthy a \<and> truthy (jsprop (heap s) a ''accessToken'') \<longrightarrow>
        auth E s a = (Inr a, s)
      \<and> lib_auth E s a = (Inr (jsprop (heap s) a ''accessToken''), s)
      \<and> (\<forall>r s'. create i E s resource media a = Some (r, s') \<longrightarrow>
            extends (bearer_only (jsprop (heap s) a ''accessToken'')) s s')
      \<and> extends (bearer_only (jsprop (heap s) a ''accessToken'')) s
            (snd (update i E s fileId resource media a))
      \<and> extends (bearer_only (jsprop (heap s) a ''accessToken'')) s
            (snd (createFolder E s name a))
      \<and> extends no_authorizer s (snd (lib_create i E s resource media a))
      \<and> extends no_authorizer s (snd (lib_update i E s fileId resource media a)))
   \<and> (truthy a \<and> \<not> truthy (jsprop (heap s) a ''accessToken'') \<longrightarrow>
        auth E s a = settle_auth (emit s (LaunchWebAuthFlow a))
                       (launchWebAuthFlow E (trace s) (heap s) a)
      \<and> trace (snd (auth E s a)) = trace s @ [LaunchWebAuthFlow a]
      \<and> lib_auth E s a = auth E s a
      \<and> calls_first (LaunchWebAuthFlow a) s (snd (createFolder E s name a))
      \<and> (\<forall>h1. default_mimeType i (heap s) resource = Inr h1 \<longrightarrow>
            (\<forall>r s'. create i E s resource media a = Some (r, s') \<longrightarrow>
               calls_first (LaunchWebAuthFlow a) s s')
          \<and> calls_first (LaunchWebAuthFlow a) s (snd (update i E s fileId resource media a))
          \<and> calls_first (LaunchWebAuthFlow a) s (snd (lib_create i E s resource media a))
          \<and> calls_first (LaunchWebAuthFlow a) s
               (snd (lib_update i E s fileId resource media a))))
   \<and> (\<not> truthy a \<longrightarrow>
        auth E s a = settle_auth (emit s (GetAuthToken (VBool True)))
                       (getAuthToken E (trace s) (VBool True))
      \<and> trace (snd (auth E s a)) = trace s @ [GetAuthToken (VBool True)]
      \<and> lib_auth E s a = auth E s a
      \<and> calls_first (GetAuthToken (VBool True)) s (snd (createFolder E s name a))
      \<and> (\<forall>h1. default_mimeType i (heap s) resource = Inr h1 \<longrightarrow>
            (\<forall>r s'. create i E s resource media a = Some (r, s') \<longrightarrow>
               calls_first (GetAuthToken (VBool True)) s s')
          \<and> calls_first (GetAuthToken (VBool True)) s
               (snd (update i E s fileId resource media a))
          \<and> calls_first (GetAuthToken (VBool True)) s (snd (lib_create i E s resource media a))
          \<and> calls_first (GetAuthToken (VBool True)) s
               (snd (lib_update i E s fileId resource media a))))"
proof (intro conjI)
  show "truthy a \<and> truthy (jsprop (heap s) a ''accessToken'') \<longrightarrow>
        auth E s a = (Inr a, s)
      \<and> lib_auth E s a = (Inr (jsprop (heap s) a ''accessToken''), s)
      \<and> (\<forall>r s'. create i E s resource media a = Some (r, s') \<longrightarrow>
            extends (bearer_only (jsprop (heap s) a ''accessToken'')) s s')
      \<and> extends (bearer_only (jsprop (heap s) a ''accessToken'')) s
            (snd (update i E s fileId resource media a))
      \<and> extends (bearer_only (jsprop (heap s) a ''accessToken'')) s
            (snd (createFolder E s name a))
      \<and> extends no_authorizer s (snd (lib_create i E s resource media a))
      \<and> extends no_authorizer s (snd (lib_update i E s fileId resource media a))"
  proof (intro impI conjI allI)
    assume tk: "truthy a \<and> truthy (jsprop (heap s) a ''accessToken'')"
    let ?tok = "jsprop (heap s) a ''accessToken''"
    from tk show "auth E s a = (Inr a, s)" by (simp add: auth_token)
    from tk show "lib_auth E s a = (Inr ?tok, s)" by (simp add: lib_auth_def del: jsprop.simps)
    show "extends (bearer_only ?tok) s s'" if "create i E s resource media a = Some (r, s')" for r s'
      using create_tok [OF that, of ?tok] tk by (simp add: tok_rel_def)
    obtain ru su where ru: "update i E s fileId resource media a = (ru, su)"
      by (cases "update i E s fileId resource media a")
    from update_tok [OF ru, of ?tok] tk ru
    show "extends (bearer_only ?tok) s (snd (update i E s fileId resource media a))"
      by (simp add: tok_rel_def)
    obtain rf sf where rf: "createFolder E s name a = (rf, sf)"
      by (cases "createFolder E s name a")
    from createFolder_tok [OF rf, of ?tok] tk rf
    show "extends (bearer_only ?tok) s (snd (createFolder E s name a))"
      by (simp add: tok_rel_def)
    from lib_runs_with_token [OF tk]
    show "extends no_authorizer s (snd (lib_create i E s resource media a))"
      and "extends no_authorizer s (snd (lib_update i E s fileId resource media a))"
      by simp_all
  qed
next
  show "truthy a \<and> \<not> truthy (jsprop (heap s) a ''accessToken'') \<longrightarrow>
        auth E s a = settle_auth (emit s (LaunchWebAuthFlow a))
                       (launchWebAuthFlow E (trace s) (heap s) a)
      \<and> trace (snd (auth E s a)) = trace s @ [LaunchWebAuthFlow a]
      \<and> lib_auth E s a = auth E s a
      \<and> calls_first (LaunchWebAuthFlow a) s (snd (createFolder E s name a))
      \<and> (\<forall>h1. default_mimeType i (heap s) resource = Inr h1 \<longrightarrow>
            (\<forall>r s'. create i E s resource media a = Some (r, s') \<longrightarrow>
               calls_first (LaunchWebAuthFlow a) s s')
          \<and> calls_first (LaunchWebAuthFlow a) s (snd (update i E s fileId resource media a))
          \<and> calls_first (LaunchWebAuthFlow a) s (snd (lib_create i E s resource media a))
          \<and> calls_first (LaunchWebAuthFlow a) s
               (snd (lib_update i E s fileId resource media a)))"
  proof
    assume flow: "truthy a \<and> \<not> truthy (jsprop (heap s) a ''accessToken'')"
    then have "auth E s a = settle_auth (emit s (LaunchWebAuthFlow a))
        (launchWebAuthFlow E (trace s) (heap s) a)"
      by (simp add: auth_def)
    with runs_call_first [where a = a and s = s and ev = "LaunchWebAuthFlow a" and E = E
        and name = name and i = i and resource = resource and media = media
        and fileId = fileId] flow
    show "auth E s a = settle_auth (emit s (LaunchWebAuthFlow a))
                       (launchWebAuthFlow E (trace s) (heap s) a)
      \<and> trace (snd (auth E s a)) = trace s @ [LaunchWebAuthFlow a]
      \<and> lib_auth E s a = auth E s a
      \<and> calls_first (LaunchWebAuthFlow a) s (snd (createFolder E s name a))
      \<and> (\<forall>h1. default_mimeType i (heap s) resource = Inr h1 \<longrightarrow>
            (\<forall>r s'. create i E s resource media a = Some (r, s') \<longrightarrow>
               calls_first (LaunchWebAuthFlow a) s s')
          \<and> calls_first (LaunchWebAuthFlow a) s (snd (update i E s fileId resource media a))
          \<and> calls_first (LaunchWebAuthFlow a) s (snd (lib_create i E s resource media a))
          \<and> calls_first (LaunchWebAuthFlow a) s
               (snd (lib_update i E s fileId resource media a)))"
      by (simp del: jsprop.simps)
  qed
next
  show "\<not> truthy a \<longrightarrow>
        auth E s a = settle_auth (emit s (GetAuthToken (VBool True)))
                       (getAuthToken E (trace s) (VBool True))
      \<and> trace (snd (auth E s a)) = trace s @ [GetAuthToken (VBool True)]
      \<and> lib_auth E s a = auth E s a
      \<and> calls_first (GetAuthToken (VBool True)) s (snd (createFolder E s name a))
      \<and> (\<forall>h1. default_mimeType i (heap s) resource = Inr h1 \<longrightarrow>
            (\<forall>r s'. create i E s resource media a = Some (r, s') \<longrightarrow>
               calls_first (GetAuthToken (VBool True)) s s')
          \<and> calls_first (GetAuthToken (VBool True)) s
               (snd (update i E s fileId resource media a))
          \<and> calls_first (GetAuthToken (VBool True)) s (snd (lib_create i E s resource media a))
          \<and> calls_first (GetAuthToken (VBool True)) s
               (snd (lib_update i E s fileId resource media a)))"
  proof
    assume none: "\<not> truthy a"
    then have "auth E s a = settle_auth (emit s (GetAuthToken (VBool True)))
        (getAuthToken E (trace s) (VBool True))"
      by (simp add: auth_def)
    with runs_call_first [where a = a and s = s and ev = "GetAuthToken (VBool True)" and E = E
        and name = name and i = i and resource = resource and media = media
        and fileId = fileId] none
    show "auth E s a = settle_auth (emit s (GetAuthToken (VBool True)))
                       (getAuthToken E (trace s) (VBool True))
      \<and> trace (snd (auth E s a)) = trace s @ [GetAuthToken (VBool True)]
      \<and> lib_auth E s a = auth E s a
      \<and> calls_first (GetAuthToken (VBool True)) s (snd (createFolder E s name a))
      \<and> (\<forall>h1. default_mimeType i (heap s) resource = Inr h1 \<longrightarrow>
            (\<forall>r s'. create i E s resource media a = Some (r, s') \<longrightarrow>
               calls_first (GetAuthToken (VBool True)) s s')
          \<and> calls_first (GetAuthToken (VBool True)) s
               (snd (update i E s fileId resource media a))
          \<and> calls_first (GetAuthToken (VBool True)) s (snd (lib_create i E s resource media a))
          \<and> calls_first (GetAuthToken (VBool True)) s
               (snd (lib_update i E s fileId resource media a)))"
      by (simp del: jsprop.simps)
  qed
qed

text \<open>
  A run with the token \<open>tok\<close> that creates two folders and uploads the file: four
  requests, all with \<open>tok\<close>, and no call of the Authorizer. On the same store, an auth
  argument without a token (the media object at address 4) makes \<open>update\<close> call
  \<open>launchWebAuthFlow\<close> with it first, and without an auth argument \<open>update\<close> first calls
  \<open>getAuthToken({interactive: true})\<close>.
\<close>

lemma default_mimeType_parents:
  "default_mimeType arc_inst (heap parents_state) (VRef 0) = Inr (heap parents_state)"
  by (simp add: default_mimeType_def arc_inst_fields parents_state_def deref_def lookup_def)

theorem auth_delegation_witness:
  "create arc_inst upload_env parents_state (VRef 0) (VRef 4) (VRef 5)
     = Some (Inr (VRef 16), parents_final)
   \<and> list_all (bearer_only (VStr ''tok'')) (trace parents_final)
   \<and> length (trace parents_final) = 4
   \<and> trace (snd (auth upload_env parents_state (VRef 4))) = [LaunchWebAuthFlow (VRef 4)]
   \<and> calls_first (LaunchWebAuthFlow (VRef 4)) parents_state
        (snd (update arc_inst upload_env parents_state None (VRef 0) (VRef 4) (VRef 4)))
   \<and> calls_first (GetAuthToken (VBool True)) parents_state
        (snd (update arc_inst upload_env parents_state None (VRef 0) (VRef 4) VUndefined))"
proof -
  have tok: "jsprop (heap parents_state) (VRef 5) ''accessToken'' = VStr ''tok''"
    and flow: "truthy (VRef 4) \<and> \<not> truthy (jsprop (heap parents_state) (VRef 4) ''accessToken'')"
    by (simp_all add: parents_state_def deref_def lookup_def)
  from auth_delegation [where a = "VRef 5" and s = parents_state and E = upload_env
      and i = arc_inst and resource = "VRef 0" and media = "VRef 4", unfolded tok]
    create_parents_run
  have "extends (bearer_only (VStr ''tok'')) parents_state parents_final"
    by simp
  then have "list_all (bearer_only (VStr ''tok'')) (trace parents_final)"
    by (simp add: extends_def parents_state_def)
  moreover have "length (trace parents_final) = 4"
    by (simp add: parents_final_def)
  moreover have "trace (snd (auth upload_env parents_state (VRef 4)))
      = trace parents_state @ [LaunchWebAuthFlow (VRef 4)]"
    and "calls_first (LaunchWebAuthFlow (VRef 4)) parents_state
        (snd (update arc_inst upload_env parents_state None (VRef 0) (VRef 4) (VRef 4)))"
    using auth_delegation [where a = "VRef 4" and s = parents_state and E = upload_env
      and i = arc_inst and resource = "VRef 0" and media = "VRef 4" and fileId = None]
      flow default_mimeType_parents
    by blast+
  moreover have "calls_first (GetAuthToken (VBool True)) parents_state
        (snd (update arc_inst upload_env parents_state None (VRef 0) (VRef 4) VUndefined))"
    using auth_delegation [where a = VUndefined and s = parents_state and E = upload_env
      and i = arc_inst and resource = "VRef 0" and media = "VRef 4" and fileId = None]
      default_mimeType_parents
    by simp
  moreover have "trace parents_state = []"
    by (simp add: parents_state_def)
  ultimately show ?thesis using create_parents_run by simp
qed

text \<open>
  The claim as first stated fails in its last part: with no auth argument the token
  request is made with \<open>interactive: true\<close>, not with \<open>interactive: false\<close>.
\<close>

theorem default_token_request_is_interactive:
  "trace (snd (auth upload_env create_state VUndefined)) = [GetAuthToken (VBool True)]
   \<and> trace (snd (auth upload_env create_state VUndefined)) \<noteq> [GetAuthToken (VBool False)]"
  by (simp add: auth_def settle_auth_def emit_def upload_env_def create_state_def alloc_def)


text \<open>
  The first version of the class does not use the token it is given. Its \<open>auth\<close>
  resolves with the token, and \<open>create\<close> reads \<open>accessToken\<close> of that string: both
  requests are sent with \<open>Bearer undefined\<close>.
\<close>

lemma lib_token_lost:
  "map (\<lambda>ev. case ev of Http rq \<Rightarrow> (req_method rq, req_bearer rq) | _ \<Rightarrow> ([], VNull))
       (trace (snd (lib_create arc_inst upload_env create_state (VRef 0) (VRef 1) (VRef 2))))
     = [(''POST'', VUndefined), (''PUT'', VUndefined)]"
  by code_simp
section \<open>Normalization of parents\<close>

lemma normalize_items_002_objects:
  "list_all (\<lambda>item. \<not> is_string item) items \<Longrightarrow>
     normalize_items_002 h r items = normalize_items h r items"
proof (induction items arbitrary: h)
  case Nil
  show ?case by simp
next
  case (Cons item items)
  then have rest: "normalize_items_002 h1 r items = normalize_items h1 r items" for h1
    by simp
  from Cons.prems show ?case
    by (cases item) (simp_all add: rest split: sum.splits del: array_push.simps jsprop.simps)
qed

lemma priv_normalizeParents_002_objects:
  assumes arr: "array_items h parents = Inr items"
    and objs: "list_all (\<lambda>item. \<not> is_string item) items"
  shows "priv_normalizeParents_002 h parents = priv_normalizeParents h parents"
proof -
  from arr obtain n where n: "parents = VRef n" by (cases parents) auto
  with arr have "n < length h" using array_items_valid by blast
  with arr n have "array_items (h @ [Arr [] []]) parents = Inr items"
    by (simp add: array_items_append del: array_items.simps)
  with objs show ?thesis
    by (simp add: priv_normalizeParents_002_def priv_normalizeParents_def alloc_def
        normalize_items_002_objects del: array_items.simps)
qed

text \<open>
  Claim C5, as amended. For an array of entries none of which is \<open>null\<close> or
  \<open>undefined\<close>, \<open>_normalizeParents\<close> of the latest class returns a new array and leaves
  every existing object as it is. The new array holds, in the order of the input, one
  element for every entry that is a string or has a set name or id: for a string \<open>s\<close> a
  new object \<open>{name: s}\<close>, or \<open>{id: 'root'}\<close> when \<open>s\<close> is \<open>my drive\<close> in any case, and for
  any other entry the entry itself. Entries that are not strings and have neither a set
  name nor a set id are dropped. The empty string is a string: it is mapped to
  \<open>{name: ''}\<close>, not skipped. The older copy of \<open>_normalizeParents\<close> returns the same
  for every array without string entries; what it does with a string entry is not part
  of the statement.
\<close>

theorem normalizeParents_result:
  assumes arr: "array_items h parents = Inr items" and ok: "proper_items h items"
  shows "(\<exists>h' vs. priv_normalizeParents h parents = Inr (h', VRef (length h))
      \<and> take (length h) h' = h
      \<and> array_items h' (VRef (length h)) = Inr vs
      \<and> list_all2 (normal_of h' (length h)) (filter (kept h) items) vs)
    \<and> (list_all (\<lambda>item. \<not> is_string item) items \<longrightarrow>
         priv_normalizeParents_002 h parents = priv_normalizeParents h parents)"
  using priv_normalizeParents_normal [OF arr ok] priv_normalizeParents_002_objects [OF arr]
  by blast

lemma normalize_my_drive:
  "priv_normalizeParents [Arr [VStr ''My Drive'', VStr ''Projects''] []] (VRef 0)
     = Inr ([Arr [VStr ''My Drive'', VStr ''Projects''] [],
             Arr [VRef 2, VRef 3] [],
             Obj [(''id'', VStr ''root'')],
             Obj [(''name'', VStr ''Projects'')]],
            VRef 1)"
  by (simp add: priv_normalizeParents_def alloc_def deref_def toLowerCase_def lower_char_def)

lemma normalize_objects:
  "priv_normalizeParents [Arr [VRef 1, VRef 2] [], Obj [(''name'', VStr ''Other'')], Obj []]
       (VRef 0)
     = Inr ([Arr [VRef 1, VRef 2] [], Obj [(''name'', VStr ''Other'')], Obj [],
             Arr [VRef 1] []],
            VRef 3)"
  by (simp add: priv_normalizeParents_def alloc_def deref_def lookup_def)

text \<open>
  The example of the specification: \<open>normalize(['My Drive', 'Projects'])\<close> is an array of
  \<open>{id: 'root'}\<close> and \<open>{name: 'Projects'}\<close> in the latest class. For the array of
  \<open>{name: 'Other'}\<close> and \<open>{}\<close> both copies return an array that holds the first object
  only.
\<close>

theorem normalizeParents_result_witness:
  "priv_normalizeParents [Arr [VStr ''My Drive'', VStr ''Projects''] []] (VRef 0)
     = Inr ([Arr [VStr ''My Drive'', VStr ''Projects''] [],
             Arr [VRef 2, VRef 3] [],
             Obj [(''id'', VStr ''root'')],
             Obj [(''name'', VStr ''Projects'')]],
            VRef 1)
   \<and> (\<exists>h' vs. priv_normalizeParents [Arr [VStr ''My Drive'', VStr ''Projects''] []] (VRef 0)
          = Inr (h', VRef 1)
        \<and> array_items h' (VRef 1) = Inr vs
        \<and> list_all2 (normal_of h' 1) [VStr ''My Drive'', VStr ''Projects''] vs)
   \<and> priv_normalizeParents_002
         [Arr [VRef 1, VRef 2] [], Obj [(''name'', VStr ''Other'')], Obj []] (VRef 0)
       = Inr ([Arr [VRef 1, VRef 2] [], Obj [(''name'', VStr ''Other'')], Obj [],
               Arr [VRef 1] []],
              VRef 3)"
proof -
  have arr: "array_items [Arr [VStr ''My Drive'', VStr ''Projects''] []] (VRef 0)
      = Inr [VStr ''My Drive'', VStr ''Projects'']"
    by (simp add: deref_def)
  have ok: "proper_items [Arr [VStr ''My Drive'', VStr ''Projects''] []]
      [VStr ''My Drive'', VStr ''Projects'']"
    by (simp add: proper_items_def)
  have arr2: "array_items [Arr [VRef 1, VRef 2] [], Obj [(''name'', VStr ''Other'')], Obj []]
      (VRef 0) = Inr [VRef 1, VRef 2]"
    by (simp add: deref_def)
  have ok2: "proper_items [Arr [VRef 1, VRef 2] [], Obj [(''name'', VStr ''Other'')], Obj []]
      [VRef 1, VRef 2]"
    by (simp add: proper_items_def)
  from normalizeParents_result [OF arr2 ok2]
  have "priv_normalizeParents_002
         [Arr [VRef 1, VRef 2] [], Obj [(''name'', VStr ''Other'')], Obj []] (VRef 0)
       = priv_normalizeParents
         [Arr [VRef 1, VRef 2] [], Obj [(''name'', VStr ''Other'')], Obj []] (VRef 0)"
    by simp
  with normalizeParents_result [OF arr ok] normalize_my_drive normalize_objects show ?thesis
    by simp
qed

text \<open>
  The claim as first stated fails for empty and falsy entries: the empty string is not
  skipped but mapped to \<open>{name: ''}\<close>, and the entry \<open>null\<close> makes the call raise
  \<open>TypeError\<close>.
\<close>

theorem empty_string_not_skipped:
  "priv_normalizeParents [Arr [VStr []] []] (VRef 0)
     = Inr ([Arr [VStr []] [], Arr [VRef 2] [], Obj [(''name'', VStr [])]], VRef 1)
   \<and> priv_normalizeParents [Arr [VNull] []] (VRef 0) = Inl TypeError"
  by (simp add: priv_normalizeParents_def alloc_def deref_def toLowerCase_def)


text \<open>
  In the older copy every string entry ends the call with \<open>ReferenceError\<close>, the example
  of the specification included: the undeclared \<open>name\<close> is read before anything is
  compared.
\<close>

lemma normalize_002_string_throws:
  "priv_normalizeParents_002 [Arr [VStr ''My Drive'', VStr ''Projects''] []] (VRef 0)
     = Inl ReferenceError
   \<and> priv_normalizeParents_002 [Arr [VStr ''Projects''] []] (VRef 0) = Inl ReferenceError"
  by (simp add: priv_normalizeParents_002_def alloc_def deref_def)
section \<open>The cached folder list\<close>

lemma first_listing:
  "listAppFoldersHandler list_env list_state (VNum 1) (VRef 0) = list_cached"
  by code_simp

text \<open>
  Claim C8. After an invocation of the list handler that ended by sending a result, any
  further invocation, with any options, sends that same folder list and does nothing
  else: the store and the cache are as before, and the only new event is the message
  with the result, so no request is issued and the Authorizer is not called.
\<close>

theorem listAppFolders_cached:
  assumes first: "listAppFoldersHandler E s rid opts = s1"
    and success: "trace s1 = trace s @ evs @ [SendResult rid folders]"
  shows "listAppFoldersHandler E s1 rid2 opts2 = emit s1 (SendResult rid2 folders)
       \<and> heap (listAppFoldersHandler E s1 rid2 opts2) = heap s1
       \<and> cachedFolders (listAppFoldersHandler E s1 rid2 opts2) = folders
       \<and> trace (listAppFoldersHandler E s1 rid2 opts2) = trace s1 @ [SendResult rid2 folders]"
  using handler_success_caches [OF first success]
  by (simp add: handler_cached emit_def)

text \<open>
  A first listing with \<open>{interactive: false}\<close> fetches one folder; a second one with
  \<open>{interactive: true}\<close> only sends the cached array again.
\<close>

theorem listAppFolders_cached_witness:
  "listAppFoldersHandler list_env list_state (VNum 1) (VRef 0) = list_cached
   \<and> trace list_cached
       = trace list_state @ [GetAuthToken (VBool False), Http list_request]
           @ [SendResult (VNum 1) (VRef 6)]
   \<and> listAppFoldersHandler list_env list_cached (VNum 2) (VRef 1)
       = emit list_cached (SendResult (VNum 2) (VRef 6))
   \<and> trace (listAppFoldersHandler list_env list_cached (VNum 2) (VRef 1))
       = [GetAuthToken (VBool False), Http list_request,
          SendResult (VNum 1) (VRef 6), SendResult (VNum 2) (VRef 6)]"
proof -
  have tr: "trace list_cached
      = trace list_state @ [GetAuthToken (VBool False), Http list_request]
          @ [SendResult (VNum 1) (VRef 6)]"
    by (simp add: list_cached_def list_state_def)
  have st: "trace list_state = []"
    by (simp add: list_state_def)
  from listAppFolders_cached [OF first_listing tr, of "VNum 2" "VRef 1"] first_listing tr
  show ?thesis by (simp add: st emit_def)
qed

section \<open>Parents that already have an id\<close>

lemma createParents_f1:
  "createParents upload_env id_state (VRef 0) (VRef 2)
     = Some (Inr (VRef 4),
         id_state\<lparr>heap := heap id_state @ [Arr [] [], Arr [VRef 1] []]\<rparr>)"
  by (simp add: createParents_def priv_normalizeParents_def alloc_def deref_def lookup_def
      auth_def id_state_def priv_createParents.simps)

text \<open>
  Claim C6. When every entry of the parents has a set id, \<open>createParents\<close> returns; it
  issues no HTTP request, leaves the cache and every existing object as they were, and
  its result is an array of the same entries in the same order. With an access token in
  the auth argument it causes no event at all. Since the entries are unchanged, the same
  holds for the next call, and so for any number of calls. Within \<open>_createParents\<close>, an
  entry with a set id is moved from the input to the result and the function continues
  in a state that differs only in these two arrays.
\<close>

theorem resolve_with_ids:
  "(array_items (heap s) parents = Inr items \<and> items \<noteq> []
      \<and> (\<forall>p \<in> set items. truthy (jsprop (heap s) p ''id'')) \<longrightarrow>
      (\<exists>r s'. createParents E s parents a = Some (r, s')
         \<and> extends not_http s s'
         \<and> cachedFolders s' = cachedFolders s
         \<and> take (length (heap s)) (heap s') = heap s
         \<and> (\<forall>rv. r = Inr rv \<longrightarrow> array_items (heap s') rv = Inr items)
         \<and> (truthy a \<and> truthy (jsprop (heap s) a ''accessToken'') \<longrightarrow>
               trace s' = trace s \<and> (\<exists>rv. r = Inr rv))
         \<and> array_items (heap s') parents = Inr items
         \<and> (\<forall>p \<in> set items. truthy (jsprop (heap s') p ''id''))))
   \<and> (array_shift (heap s) parents = Inr (parent, h1) \<and> truthy (jsprop h1 parent ''id'')
        \<and> array_push h1 result parent = Inr h2 \<longrightarrow>
      priv_createParents E s parents a result
        = priv_createParents E (s\<lparr>heap := h2\<rparr>) parents a result)"
proof (intro conjI impI)
  assume pre: "array_items (heap s) parents = Inr items \<and> items \<noteq> []
      \<and> (\<forall>p \<in> set items. truthy (jsprop (heap s) p ''id''))"
  then have arr: "array_items (heap s) parents = Inr items" and ne: "items \<noteq> []"
    and ids: "\<forall>p \<in> set items. truthy (jsprop (heap s) p ''id'')"
    by simp_all
  from createParents_ids [OF arr ne ids, of E a] obtain r s' where
    run: "createParents E s parents a = Some (r, s')"
    and fr: "extends not_http s s'" "cachedFolders s' = cachedFolders s"
      "take (length (heap s)) (heap s') = heap s"
      "\<forall>rv. r = Inr rv \<longrightarrow> array_items (heap s') rv = Inr items"
      "truthy a \<and> truthy (jsprop (heap s) a ''accessToken'') \<longrightarrow>
         trace s' = trace s \<and> (\<exists>rv. r = Inr rv)"
    by blast
  have k: "keeps ''id'' (heap s) (heap s')"
    using fr(3) by (rule prefix_keeps)
  have again: "\<forall>p \<in> set items. truthy (jsprop (heap s') p ''id'')"
    using ids keeps_val [OF k] by simp
  from arr obtain x ps where par: "parents = VRef x" "deref (heap s) x = Arr items ps"
    by (cases parents) (auto split: obj.splits)
  then have "x < length (heap s)"
    by (cases "x < length (heap s)") (simp_all add: deref_def)
  then have "deref (heap s') x = deref (heap s) x"
    using deref_take [of x "length (heap s)" "heap s'"] fr(3) by simp
  with par have "array_items (heap s') parents = Inr items" by simp
  with run fr again
  show "\<exists>r s'. createParents E s parents a = Some (r, s')
         \<and> extends not_http s s'
         \<and> cachedFolders s' = cachedFolders s
         \<and> take (length (heap s)) (heap s') = heap s
         \<and> (\<forall>rv. r = Inr rv \<longrightarrow> array_items (heap s') rv = Inr items)
         \<and> (truthy a \<and> truthy (jsprop (heap s) a ''accessToken'') \<longrightarrow>
               trace s' = trace s \<and> (\<exists>rv. r = Inr rv))
         \<and> array_items (heap s') parents = Inr items
         \<and> (\<forall>p \<in> set items. truthy (jsprop (heap s') p ''id''))"
    by blast
next
  assume step: "array_shift (heap s) parents = Inr (parent, h1)
      \<and> truthy (jsprop h1 parent ''id'') \<and> array_push h1 result parent = Inr h2"
  then have "truthy parent" by (cases parent) simp_all
  with step show "priv_createParents E s parents a result
      = priv_createParents E (s\<lparr>heap := h2\<rparr>) parents a result"
    by (subst priv_createParents.simps) simp
qed

text \<open>
  The example of the specification: resolving \<open>[{id: 'f1'}]\<close> causes no event and returns
  an array whose only element is that same object.
\<close>

theorem resolve_with_ids_witness:
  "createParents upload_env id_state (VRef 0) (VRef 2)
     = Some (Inr (VRef 4), id_state\<lparr>heap := heap id_state @ [Arr [] [], Arr [VRef 1] []]\<rparr>)
   \<and> trace (id_state\<lparr>heap := heap id_state @ [Arr [] [], Arr [VRef 1] []]\<rparr>) = []
   \<and> array_items (heap id_state @ [Arr [] [], Arr [VRef 1] []]) (VRef 4) = Inr [VRef 1]
   \<and> deref (heap id_state @ [Arr [] [], Arr [VRef 1] []]) 1 = Obj [(''id'', VStr ''f1'')]"
proof -
  have pre: "array_items (heap id_state) (VRef 0) = Inr [VRef 1] \<and> [VRef 1] \<noteq> []
      \<and> (\<forall>p \<in> set [VRef 1]. truthy (jsprop (heap id_state) p ''id''))"
    and tk: "truthy (VRef 2) \<and> truthy (jsprop (heap id_state) (VRef 2) ''accessToken'')"
    and tr: "trace id_state = []"
    by (simp_all add: id_state_def deref_def lookup_def)
  from resolve_with_ids [of id_state "VRef 0" "[VRef 1]" upload_env "VRef 2"] pre tk
  have "\<exists>r s'. createParents upload_env id_state (VRef 0) (VRef 2) = Some (r, s')
      \<and> trace s' = trace id_state \<and> (\<forall>rv. r = Inr rv \<longrightarrow> array_items (heap s') rv = Inr [VRef 1])"
    by blast
  with createParents_f1 tr show ?thesis
    by (simp add: id_state_def deref_def)
qed

section \<open>The order of the requests of \<open>create\<close>\<close>




end
